theory Spec2Isabelle
  imports Main
begin

section \<open>JavaScript values that reach the controller\<close>

text \<open>
  Everything the controller hands to the diffing library is either the result of
  \<open>JSON.parse\<close> or a raw content string, so the values are the JSON values.  The finite
  numbers are kept as integers (below \<open>1e21\<close> in size, where \<open>JSON.stringify\<close> writes all
  the digits): the controller performs no arithmetic on them, only equality, the
  truthiness test of \<open>obj.id || ...\<close> and their serialisation are observed.
  A number literal beyond the range of the doubles, such as \<open>1e999\<close>, parses to an infinity
  (\<open>JInfinity True\<close> is the negative one).  An object is the list of its own properties in
  enumeration order.  The JavaScript value \<open>undefined\<close> (a missing
  property, a missing request field) is \<open>None\<close> of an option type.
\<close>

datatype json =
    JNull
  | JBool bool
  | JNum int
  | JInfinity bool
  | JStr string
  | JArr "json list"
  | JObj "(string \<times> json) list"

text \<open>What can be thrown inside a handler; every handler catches all of it.\<close>

datatype js_error = TypeError | Error | ReferenceError | ValidationError | MongoError

text \<open>\<open>typeof v === 'object'\<close>: objects, arrays and \<open>null\<close>.\<close>

fun typeofObject :: "json \<Rightarrow> bool" where
  "typeofObject JNull = True"
| "typeofObject (JArr xs) = True"
| "typeofObject (JObj kvs) = True"
| "typeofObject v = False"

text \<open>A primitive is compared by value by \<open>===\<close>; an object or array by reference.\<close>

fun isPrimitive :: "json \<Rightarrow> bool" where
  "isPrimitive (JArr xs) = False"
| "isPrimitive (JObj kvs) = False"
| "isPrimitive v = True"

text \<open>Truthiness, as tested by \<open>||\<close>.\<close>

fun truthy :: "json \<Rightarrow> bool" where
  "truthy JNull = False"
| "truthy (JBool b) = b"
| "truthy (JNum n) = (n \<noteq> 0)"
| "truthy (JInfinity negative) = True"
| "truthy (JStr s) = (s \<noteq> [])"
| "truthy (JArr xs) = True"
| "truthy (JObj kvs) = True"

text \<open>
  \<open>left === right\<close> for two values that come from two different calls of \<open>JSON.parse\<close>
  (or are primitives): two objects or arrays are never the same reference.
\<close>

definition strictEq :: "json \<Rightarrow> json \<Rightarrow> bool" where
  "strictEq a b = (isPrimitive a \<and> isPrimitive b \<and> a = b)"

subsection \<open>JSON.stringify\<close>

definition digitChar :: "nat \<Rightarrow> char" where
  "digitChar d = ''0123456789abcdef'' ! (d mod 16)"

function decimal :: "nat \<Rightarrow> string" where
  "decimal n = (if n < 10 then [digitChar n] else decimal (n div 10) @ [digitChar (n mod 10)])"
  by pat_completeness auto
termination
  by (relation "measure id") auto

declare decimal.simps [simp del]

definition showInt :: "int \<Rightarrow> string" where
  "showInt i = (if i < 0 then CHR ''-'' # decimal (nat (- i)) else decimal (nat i))"

text \<open>
  \<open>JSON.stringify\<close> writes an infinity as \<open>null\<close>.  Its escapes: the quote, the backslash,
  the five short control escapes, \<open>\u00XX\<close> for the other control characters, every other
  character as it is.
\<close>

definition escapeChar :: "char \<Rightarrow> string" where
  "escapeChar c =
     (if c = CHR 0x22 then [CHR 0x5C, CHR 0x22]
      else if c = CHR 0x5C then [CHR 0x5C, CHR 0x5C]
      else if c = CHR 0x08 then [CHR 0x5C, CHR ''b'']
      else if c = CHR 0x0C then [CHR 0x5C, CHR ''f'']
      else if c = CHR 0x0A then [CHR 0x5C, CHR ''n'']
      else if c = CHR 0x0D then [CHR 0x5C, CHR ''r'']
      else if c = CHR 0x09 then [CHR 0x5C, CHR ''t'']
      else if of_char c < (32::nat)
        then [CHR 0x5C, CHR ''u'', CHR ''0'', CHR ''0'',
              digitChar (of_char c div 16), digitChar (of_char c mod 16)]
      else [c])"

definition quote :: "string \<Rightarrow> string" where
  "quote s = CHR 0x22 # concat (map escapeChar s) @ [CHR 0x22]"

fun commaSep :: "string list \<Rightarrow> string" where
  "commaSep [] = []"
| "commaSep [x] = x"
| "commaSep (x # y # ys) = x @ CHR '','' # commaSep (y # ys)"

fun stringify :: "json \<Rightarrow> string" where
  "stringify JNull = ''null''"
| "stringify (JBool b) = (if b then ''true'' else ''false'')"
| "stringify (JNum n) = showInt n"
| "stringify (JInfinity negative) = ''null''"
| "stringify (JStr s) = quote s"
| "stringify (JArr xs) = CHR ''['' # commaSep (map stringify xs) @ '']''"
| "stringify (JObj kvs) =
     CHR ''{'' # commaSep (map (\<lambda>(k, v). quote k @ CHR '':'' # stringify v) kvs) @ ''}''"

section \<open>The diff patcher's configuration (documentController.ts, lines 8-11)\<close>

text \<open>\<open>obj.id\<close>: reading a property of \<open>null\<close> throws, of any other value without it gives
  \<open>undefined\<close>.\<close>

fun propId :: "json \<Rightarrow> js_error + json option" where
  "propId JNull = Inl TypeError"
| "propId (JObj kvs) = Inr (map_of kvs ''id'')"
| "propId v = Inr None"

text \<open>\<open>objectHash: (obj) => obj.id || JSON.stringify(obj)\<close>\<close>

definition objectHash :: "json \<Rightarrow> js_error + json" where
  "objectHash obj =
     (case propId obj of
        Inl e \<Rightarrow> Inl e
      | Inr None \<Rightarrow> Inr (JStr (stringify obj))
      | Inr (Some i) \<Rightarrow> Inr (if truthy i then i else JStr (stringify obj)))"

text \<open>\<open>propertyFilter: (name) => name !== '$hashKey'\<close>\<close>

definition propertyFilter :: "string \<Rightarrow> bool" where
  "propertyFilter name = (name \<noteq> ''$hashKey'')"

section \<open>The diffing library, as the controller configures it\<close>

text \<open>
  \<open>diffPatcher.diff\<close> is the \<open>jsondiffpatch\<close> package; its filters are written out here in
  their pipeline order (trivial, texts, objects, arrays, and the collection of the
  children's results), with the two callbacks of the controller plugged in.  A delta is
  \<open>[old, new]\<close>, \<open>[new]\<close>, \<open>[old, 0, 0]\<close>, \<open>['', index, 3]\<close>, a text patch \<open>[patch, 0, 2]\<close>
  (kept as the two texts it is computed from), an object of member deltas, or an array
  delta (\<open>_t: 'a'\<close>) whose keys are \<open>i\<close> or \<open>_i\<close>.  The result \<open>undefined\<close>, no change,
  is \<open>None\<close>.  Entries are listed in the order in which the library assigns them.
\<close>

datatype akey = At nat | Was nat

datatype delta =
    Replaced json json
  | Added json
  | Deleted json
  | Moved nat
  | TextDiff string string
  | ObjectDelta "(string \<times> delta) list"
  | ArrayDelta "(akey \<times> delta) list"

text \<open>\<open>matchItems\<close> of the arrays filter: identical values match, values that are not both
  \<open>typeof 'object'\<close> do not, the others match when their hashes are identical.\<close>

definition matchItems :: "json \<Rightarrow> json \<Rightarrow> js_error + bool" where
  "matchItems value1 value2 =
     (if strictEq value1 value2 then Inr True
      else if \<not> typeofObject value1 \<or> \<not> typeofObject value2 then Inr False
      else case objectHash value1 of
             Inl e \<Rightarrow> Inl e
           | Inr hash1 \<Rightarrow>
               (case objectHash value2 of
                  Inl e \<Rightarrow> Inl e
                | Inr hash2 \<Rightarrow> Inr (strictEq hash1 hash2)))"

definition matches :: "json \<Rightarrow> json \<Rightarrow> bool" where
  "matches a b = (matchItems a b = Inr True)"

text \<open>The length of the common head (and, on the reversed remainders, of the common tail).\<close>

fun headMatch :: "json list \<Rightarrow> json list \<Rightarrow> js_error + nat" where
  "headMatch (x # xs) (y # ys) =
     (case matchItems x y of
        Inl e \<Rightarrow> Inl e
      | Inr False \<Rightarrow> Inr 0
      | Inr True \<Rightarrow> (case headMatch xs ys of Inl e \<Rightarrow> Inl e | Inr n \<Rightarrow> Inr (Suc n)))"
| "headMatch xs ys = Inr 0"

text \<open>
  The longest common subsequence of the two middle segments.  Both functions take the
  segments reversed and tagged with their indices: \<open>lcsLength\<close> is an entry of the length
  matrix, \<open>backtrack\<close> walks it from the bottom right corner.
\<close>

fun lcsLength :: "(nat \<times> json) list \<Rightarrow> (nat \<times> json) list \<Rightarrow> nat" where
  "lcsLength [] ys = 0"
| "lcsLength (x # xs) [] = 0"
| "lcsLength (x # xs) (y # ys) =
     (if matches (snd x) (snd y) then lcsLength xs ys + 1
      else max (lcsLength xs (y # ys)) (lcsLength (x # xs) ys))"

fun backtrack :: "(nat \<times> json) list \<Rightarrow> (nat \<times> json) list \<Rightarrow> ((nat \<times> json) \<times> (nat \<times> json)) list" where
  "backtrack [] ys = []"
| "backtrack (x # xs) [] = []"
| "backtrack (x # xs) (y # ys) =
     (if matches (snd x) (snd y) then backtrack xs ys @ [(x, y)]
      else if lcsLength (x # xs) ys > lcsLength xs (y # ys) then backtrack (x # xs) ys
      else backtrack xs (y # ys))"

text \<open>The length matrix calls \<open>matchItems\<close> on every pair of the two segments; one of
  these calls throwing aborts the diff.\<close>

definition anyThrows :: "(nat \<times> json) list \<Rightarrow> (nat \<times> json) list \<Rightarrow> bool" where
  "anyThrows xs ys = list_ex (\<lambda>x. list_ex (\<lambda>y. isl (matchItems (snd x) (snd y))) ys) xs"

text \<open>What the arrays filter produces itself (additions, removals, moves) and the pairs
  of items it hands to the nested diff, each under the index it has on the right.\<close>

type_synonym plan = "(akey \<times> delta) list \<times> (nat \<times> json \<times> json) list"

fun placeItem :: "((nat \<times> json) \<times> (nat \<times> json)) list \<Rightarrow> plan \<times> (nat \<times> json) list \<Rightarrow> nat \<times> json
    \<Rightarrow> plan \<times> (nat \<times> json) list" where
  "placeItem seq ((entries, kids), removedItems) (index, item) =
     (case find (\<lambda>p. fst (snd p) = index) seq of
        Some p \<Rightarrow> ((entries, kids @ [(index, snd (fst p), item)]), removedItems)
      | None \<Rightarrow>
          (case find (\<lambda>q. matches (snd q) item) removedItems of
             Some q \<Rightarrow>
               ((map (\<lambda>e. if fst e = Was (fst q) then (Was (fst q), Moved index) else e) entries,
                 kids @ [(index, snd q, item)]),
                remove1 q removedItems)
           | None \<Rightarrow> ((entries @ [(At index, Added item)], kids), removedItems)))"

definition lcsPlan :: "(nat \<times> json) list \<Rightarrow> (nat \<times> json) list \<Rightarrow> plan" where
  "lcsPlan trimmed1 trimmed2 =
     (let seq = backtrack (rev trimmed1) (rev trimmed2);
          removedItems = filter (\<lambda>x. fst x \<notin> set (map (fst \<circ> fst) seq)) trimmed1;
          entries = map (\<lambda>x. (Was (fst x), Deleted (snd x))) removedItems
      in fst (foldl (placeItem seq) ((entries, []), removedItems) trimmed2))"

definition headKids :: "nat \<Rightarrow> json list \<Rightarrow> json list \<Rightarrow> (nat \<times> json \<times> json) list" where
  "headKids commonHead array1 array2 =
     enumerate 0 (zip (take commonHead array1) (take commonHead array2))"

definition tailKids :: "nat \<Rightarrow> json list \<Rightarrow> json list \<Rightarrow> (nat \<times> json \<times> json) list" where
  "tailKids commonTail array1 array2 =
     map (\<lambda>(k, x, y). (length array2 - 1 - k, x, y))
       (enumerate 0 (zip (take commonTail (rev array1)) (take commonTail (rev array2))))"

definition trimmed :: "nat \<Rightarrow> nat \<Rightarrow> json list \<Rightarrow> (nat \<times> json) list" where
  "trimmed commonHead commonTail array =
     enumerate commonHead (take (length array - commonHead - commonTail) (drop commonHead array))"

definition arraysPlan :: "json list \<Rightarrow> json list \<Rightarrow> js_error + plan" where
  "arraysPlan array1 array2 =
     (case headMatch array1 array2 of
        Inl e \<Rightarrow> Inl e
      | Inr commonHead \<Rightarrow>
     (case headMatch (rev (drop commonHead array1)) (rev (drop commonHead array2)) of
        Inl e \<Rightarrow> Inl e
      | Inr commonTail \<Rightarrow>
          (let matched = headKids commonHead array1 array2 @ tailKids commonTail array1 array2;
               trimmed1 = trimmed commonHead commonTail array1;
               trimmed2 = trimmed commonHead commonTail array2
           in if commonHead + commonTail = length array1
                then Inr (map (\<lambda>y. (At (fst y), Added (snd y))) trimmed2, matched)
              else if commonHead + commonTail = length array2
                then Inr (map (\<lambda>x. (Was (fst x), Deleted (snd x))) trimmed1, matched)
              else if anyThrows trimmed1 trimmed2 then Inl TypeError
              else Inr (fst (lcsPlan trimmed1 trimmed2), matched @ snd (lcsPlan trimmed1 trimmed2)))))"

text \<open>Collecting the children: a child that threw aborts, a child without a result is
  left out.\<close>

fun collectChildren :: "('k \<times> (js_error + delta option)) list \<Rightarrow> js_error + ('k \<times> delta) list" where
  "collectChildren [] = Inr []"
| "collectChildren ((k, Inl e) # cs) = Inl e"
| "collectChildren ((k, Inr None) # cs) = collectChildren cs"
| "collectChildren ((k, Inr (Some d)) # cs) =
     (case collectChildren cs of Inl e \<Rightarrow> Inl e | Inr ds \<Rightarrow> Inr ((k, d) # ds))"

text \<open>
  The objects filter reads \<open>left[name]\<close> and \<open>right[name]\<close> through the prototype chain.  For
  a name that is not an own property, the read gives a function for the function members
  of \<open>Object.prototype\<close>, \<open>Object.prototype\<close> itself for \<open>__proto__\<close>, and \<open>undefined\<close>
  otherwise.
\<close>

definition prototypeFunctions :: "string list" where
  "prototypeFunctions =
     [''constructor'', ''hasOwnProperty'', ''isPrototypeOf'', ''propertyIsEnumerable'',
      ''toLocaleString'', ''toString'', ''valueOf'', ''__defineGetter__'', ''__defineSetter__'',
      ''__lookupGetter__'', ''__lookupSetter__'']"

datatype inherited = IsFunction | IsPrototype | IsUndefined

definition inheritedMember :: "string \<Rightarrow> inherited" where
  "inheritedMember name =
     (if name \<in> set prototypeFunctions then IsFunction
      else if name = ''__proto__'' then IsPrototype
      else IsUndefined)"

text \<open>
  The result object of the objects filter is filled by \<open>result[name] = delta\<close>: for the name
  \<open>__proto__\<close> this assignment sets the prototype of the result and adds no entry.
\<close>

definition objectResult :: "(string \<times> delta) list \<Rightarrow> delta option" where
  "objectResult ds =
     (if ds = [] then None else Some (ObjectDelta (filter (\<lambda>p. fst p \<noteq> ''__proto__'') ds)))"

text \<open>
  The child \<open>(v, Object.prototype)\<close>, for an own \<open>__proto__\<close> of the left object that the
  right object lacks.  A value that is not a plain object is replaced by the prototype,
  which is written \<open>{}\<close> wherever a delta is serialised.  A plain object is compared member
  by member: the prototype's own members are its functions (a function on either side
  throws) and its \<open>__proto__\<close>, which is \<open>null\<close>; it has no enumerable member.
\<close>

fun prototypeChild :: "json \<Rightarrow> js_error + delta option" where
  "prototypeChild (JObj kvs) =
     (case collectChildren
             (map (\<lambda>(name, x). (name, case inheritedMember name of
                                         IsFunction \<Rightarrow> Inl Error
                                       | IsPrototype \<Rightarrow>
                                           Inr (if x = JNull then None else Some (Replaced x JNull))
                                       | IsUndefined \<Rightarrow> Inr (Some (Deleted x))))
                  (filter (\<lambda>p. propertyFilter (fst p)) kvs)) of
        Inl e \<Rightarrow> Inl e
      | Inr ds \<Rightarrow> Inr (objectResult ds))"
| "prototypeChild v = Inr (Some (Replaced v (JObj [])))"

lemma backtrack_left: "p \<in> set (backtrack xs ys) \<Longrightarrow> fst p \<in> set xs"
  by (induction xs ys rule: backtrack.induct) (auto split: if_splits)

lemma snd_enumerate_in: "p \<in> set (enumerate n xs) \<Longrightarrow> snd p \<in> set xs"
  by (metis enumerate_eq_zip set_zip_rightD prod.collapse)

lemma placeItem_left:
  assumes "\<forall>p \<in> set seq. snd (fst p) \<in> S"
    and "\<forall>k \<in> set (snd (fst st)). fst (snd k) \<in> S"
    and "\<forall>q \<in> set (snd st). snd q \<in> S"
  shows "(\<forall>k \<in> set (snd (fst (placeItem seq st it))). fst (snd k) \<in> S)
       \<and> (\<forall>q \<in> set (snd (placeItem seq st it)). snd q \<in> S)"
proof -
  obtain entries kids removedItems where st: "st = ((entries, kids), removedItems)"
    by (metis prod.collapse)
  obtain index item where it: "it = (index, item)"
    by (metis prod.collapse)
  show ?thesis
  proof (cases "find (\<lambda>p. fst (snd p) = index) seq")
    case (Some p)
    then have "p \<in> set seq"
      by (auto simp: find_Some_iff)
    with assms Some show ?thesis
      by (auto simp: st it)
  next
    case None
    show ?thesis
    proof (cases "find (\<lambda>q. matches (snd q) item) removedItems")
      case inner: None
      with None assms show ?thesis
        by (auto simp: st it)
    next
      case inner: (Some q)
      then have "q \<in> set removedItems"
        by (auto simp: find_Some_iff)
      with None inner assms show ?thesis
        by (auto simp: st it dest: notin_set_remove1)
    qed
  qed
qed

lemma foldl_placeItem_left:
  assumes "\<forall>p \<in> set seq. snd (fst p) \<in> S"
  shows "(\<forall>k \<in> set (snd (fst st)). fst (snd k) \<in> S) \<Longrightarrow> (\<forall>q \<in> set (snd st). snd q \<in> S)
    \<Longrightarrow> \<forall>k \<in> set (snd (fst (foldl (placeItem seq) st its))). fst (snd k) \<in> S"
proof (induction its arbitrary: st)
  case Nil
  then show ?case by simp
next
  case (Cons it its)
  from placeItem_left [OF assms Cons.prems, of it]
  have "\<forall>k \<in> set (snd (fst (foldl (placeItem seq) (placeItem seq st it) its))). fst (snd k) \<in> S"
    by (intro Cons.IH) blast+
  then show ?case
    by simp
qed

lemma lcsPlan_left:
  assumes "k \<in> set (snd (lcsPlan trimmed1 trimmed2))"
  shows "fst (snd k) \<in> snd ` set trimmed1"
proof -
  let ?seq = "backtrack (rev trimmed1) (rev trimmed2)"
  have seq: "\<forall>p \<in> set ?seq. snd (fst p) \<in> snd ` set trimmed1"
    using backtrack_left [of _ "rev trimmed1" "rev trimmed2"] by auto
  from foldl_placeItem_left [OF seq, of "((map (\<lambda>x. (Was (fst x), Deleted (snd x)))
         (filter (\<lambda>x. fst x \<notin> set (map (fst \<circ> fst) ?seq)) trimmed1), []),
         filter (\<lambda>x. fst x \<notin> set (map (fst \<circ> fst) ?seq)) trimmed1)" trimmed2] assms
  show ?thesis
    by (auto simp: lcsPlan_def Let_def)
qed

lemma headKids_left: "k \<in> set (headKids h array1 array2) \<Longrightarrow> fst (snd k) \<in> set array1"
proof -
  assume "k \<in> set (headKids h array1 array2)"
  then have "snd k \<in> set (zip (take h array1) (take h array2))"
    unfolding headKids_def by (rule snd_enumerate_in)
  then have "fst (snd k) \<in> set (take h array1)"
    by (metis set_zip_leftD prod.collapse)
  then show ?thesis
    by (rule in_set_takeD)
qed

lemma tailKids_left: "k \<in> set (tailKids t array1 array2) \<Longrightarrow> fst (snd k) \<in> set array1"
proof -
  assume "k \<in> set (tailKids t array1 array2)"
  then obtain p where p: "p \<in> set (enumerate 0 (zip (take t (rev array1)) (take t (rev array2))))"
    and k: "snd k = snd p"
    unfolding tailKids_def by auto
  from p have "snd p \<in> set (zip (take t (rev array1)) (take t (rev array2)))"
    by (rule snd_enumerate_in)
  then have "fst (snd p) \<in> set (take t (rev array1))"
    by (metis set_zip_leftD prod.collapse)
  then have "fst (snd p) \<in> set (rev array1)"
    by (rule in_set_takeD)
  with k show ?thesis
    by simp
qed

lemma trimmed_left: "q \<in> set (trimmed h t array) \<Longrightarrow> snd q \<in> set array"
proof -
  assume "q \<in> set (trimmed h t array)"
  then have "snd q \<in> set (take (length array - h - t) (drop h array))"
    unfolding trimmed_def by (rule snd_enumerate_in)
  then show ?thesis
    by (meson in_set_takeD in_set_dropD)
qed

lemma lcsKids_left:
  "k \<in> set (snd (lcsPlan (trimmed h t array1) ys)) \<Longrightarrow> fst (snd k) \<in> set array1"
  using lcsPlan_left [of k "trimmed h t array1" ys] trimmed_left [of _ h t array1] by auto

lemma arraysPlan_kids_left:
  assumes "arraysPlan array1 array2 = Inr (entries, kids)" and "k \<in> set kids"
  shows "fst (snd k) \<in> set array1"
  using assms
  by (auto simp: arraysPlan_def Let_def split: sum.splits if_splits
      dest: headKids_left tailKids_left lcsKids_left)

text \<open>Length below which two strings are replaced whole instead of text-diffed.\<close>

definition textDiffMinLength :: nat where
  "textDiffMinLength = 60"

function (sequential) diffPatcher_diff :: "json \<Rightarrow> json \<Rightarrow> js_error + delta option" where
  "diffPatcher_diff (JObj ls) (JObj rs) =
     (case collectChildren
             (map (\<lambda>(name, v). (name, case map_of rs name of
                                         None \<Rightarrow>
                                           (case inheritedMember name of
                                              IsFunction \<Rightarrow> Inl Error
                                            | IsPrototype \<Rightarrow> prototypeChild v
                                            | IsUndefined \<Rightarrow> Inr (Some (Deleted v)))
                                       | Some w \<Rightarrow> diffPatcher_diff v w))
                  (filter (\<lambda>p. propertyFilter (fst p)) ls)
              @ map (\<lambda>(name, w). (name, Inr (Some (Added w))))
                  (filter (\<lambda>p. propertyFilter (fst p) \<and> map_of ls (fst p) = None
                                \<and> inheritedMember (fst p) = IsUndefined) rs)) of
        Inl e \<Rightarrow> Inl e
      | Inr ds \<Rightarrow> Inr (objectResult ds))"
| "diffPatcher_diff (JArr ls) (JArr rs) =
     (case arraysPlan ls rs of
        Inl e \<Rightarrow> Inl e
      | Inr (entries, kids) \<Rightarrow>
          (case collectChildren (map (\<lambda>(i, a, b). (At i, diffPatcher_diff a b)) kids) of
             Inl e \<Rightarrow> Inl e
           | Inr ds \<Rightarrow> Inr (if entries @ ds = [] then None else Some (ArrayDelta (entries @ ds)))))"
| "diffPatcher_diff (JStr a) (JStr b) =
     (if a = b then Inr None
      else if length a < textDiffMinLength \<or> length b < textDiffMinLength
        then Inr (Some (Replaced (JStr a) (JStr b)))
      else Inr (Some (TextDiff a b)))"
| "diffPatcher_diff left right =
     (if strictEq left right then Inr None else Inr (Some (Replaced left right)))"
  by pat_completeness auto
termination
proof (relation "measure (\<lambda>(l, r). size l)", goal_cases)
  case 1
  show ?case by simp
next
  case (2 ls rs x name v w)
  then have "(name, v) \<in> set ls"
    by auto
  then have "size v < Suc (size_list (size_prod (\<lambda>_. 0) size) ls)"
    by (induction ls) auto
  then show ?case by simp
next
  case (3 ls rs x entries kids y i z a b)
  then have "a \<in> set ls"
    using arraysPlan_kids_left [of ls rs entries kids "(i, a, b)"] by auto
  then have "size a < Suc (size_list size ls)"
    by (induction ls) auto
  then show ?case by simp
qed

section \<open>The collections (models/Document.ts, the Version model)\<close>

type_synonym oid = nat

record document =
  d_id :: oid
  d_name :: string
  d_content :: string
  d_userId :: "oid option"
  d_createdAt :: nat
  d_updatedAt :: nat

text \<open>The \<open>diff\<close> field is \<open>Mixed\<close>: the initial version stores the literal \<open>[]\<close>, the
  later ones what the diff patcher returned; \<open>None\<close> is a version without the field.\<close>

datatype stored_diff = EmptyArray | Delta delta

record version =
  v_id :: oid
  v_documentId :: oid
  v_content :: string
  v_isAutoSave :: bool
  v_userId :: "oid option"
  v_diff :: "stored_diff option"
  v_mergedFrom :: "oid option"
  v_createdAt :: nat
  v_updatedAt :: nat

text \<open>The database: both collections in insertion order, and the next fresh identifier.\<close>

record store =
  documents :: "document list"
  versions :: "version list"
  nextId :: oid

text \<open>
  What a handler needs from outside the repository: \<open>JSON.parse\<close> (\<open>None\<close> when it throws),
  the reading of a request parameter as an ObjectId (\<open>None\<close> when \<open>ObjectId.isValid\<close> is
  false), the time of the request, which of the handler's database calls, numbered in
  program order from 0, fails, and the form in which the ODM writes the value of a \<open>Mixed\<close>
  path into the collection (\<open>None\<close> when it writes nothing: the Version schema sets no
  \<open>minimize\<close> option, so empty objects are removed on the way).
\<close>

record runtime =
  JSON_parse :: "string \<Rightarrow> json option"
  ObjectId :: "string \<Rightarrow> oid option"
  now :: nat
  dbFails :: "nat \<Rightarrow> bool"
  writeMixed :: "delta \<Rightarrow> delta option"

text \<open>The \<open>diff\<close> field as it arrives in the collection: a missing field stays missing, the
  empty array of the initial version has nothing to remove.\<close>

definition storedDiff :: "runtime \<Rightarrow> stored_diff option \<Rightarrow> stored_diff option" where
  "storedDiff rt diff =
     (case diff of
        None \<Rightarrow> None
      | Some EmptyArray \<Rightarrow> Some EmptyArray
      | Some (Delta d) \<Rightarrow> map_option Delta (writeMixed rt d))"

text \<open>A \<open>required\<close> path of type \<open>String\<close> is rejected by the schema validation when it is
  the empty string.\<close>

definition requiredString :: "string \<Rightarrow> bool" where
  "requiredString s = (s \<noteq> [])"

definition Document_create :: "runtime \<Rightarrow> nat \<Rightarrow> string \<Rightarrow> string \<Rightarrow> oid option \<Rightarrow> store
    \<Rightarrow> js_error + document \<times> store" where
  "Document_create rt call name content userId db =
     (if \<not> requiredString name \<or> \<not> requiredString content then Inl ValidationError
      else if dbFails rt call then Inl MongoError
      else let doc = \<lparr>d_id = nextId db, d_name = name, d_content = content, d_userId = userId,
                       d_createdAt = now rt, d_updatedAt = now rt\<rparr>
           in Inr (doc, db\<lparr>documents := documents db @ [doc], nextId := Suc (nextId db)\<rparr>))"

text \<open>\<open>Version.create\<close> returns the document it was given, with its diff as computed; the
  record inserted into the collection has the diff in its written form.\<close>

definition Version_create :: "runtime \<Rightarrow> nat \<Rightarrow> oid \<Rightarrow> string \<Rightarrow> bool \<Rightarrow> stored_diff option
    \<Rightarrow> oid option \<Rightarrow> oid option \<Rightarrow> store \<Rightarrow> js_error + version \<times> store" where
  "Version_create rt call documentId content isAutoSave diff mergedFrom userId db =
     (if \<not> requiredString content then Inl ValidationError
      else if dbFails rt call then Inl MongoError
      else let ver = \<lparr>v_id = nextId db, v_documentId = documentId, v_content = content,
                       v_isAutoSave = isAutoSave, v_userId = userId, v_diff = diff,
                       v_mergedFrom = mergedFrom, v_createdAt = now rt, v_updatedAt = now rt\<rparr>
           in Inr (ver, db\<lparr>versions := versions db @ [ver\<lparr>v_diff := storedDiff rt diff\<rparr>],
                           nextId := Suc (nextId db)\<rparr>))"

definition Document_findById :: "runtime \<Rightarrow> nat \<Rightarrow> oid \<Rightarrow> store \<Rightarrow> js_error + document option" where
  "Document_findById rt call i db =
     (if dbFails rt call then Inl MongoError else Inr (find (\<lambda>d. d_id d = i) (documents db)))"

definition Version_findById :: "runtime \<Rightarrow> nat \<Rightarrow> oid \<Rightarrow> store \<Rightarrow> js_error + version option" where
  "Version_findById rt call i db =
     (if dbFails rt call then Inl MongoError else Inr (find (\<lambda>v. v_id v = i) (versions db)))"

text \<open>\<open>Version.findOne({ _id: versionId, documentId: id })\<close>\<close>

definition Version_findOne :: "runtime \<Rightarrow> nat \<Rightarrow> oid \<Rightarrow> oid \<Rightarrow> store \<Rightarrow> js_error + version option" where
  "Version_findOne rt call versionId documentId db =
     (if dbFails rt call then Inl MongoError
      else Inr (find (\<lambda>v. v_id v = versionId \<and> v_documentId v = documentId) (versions db)))"

text \<open>
  \<open>doc.save()\<close> after one assignment to a path.  When the assigned value is the old one,
  nothing is validated or written, but the database is still asked for the document, and
  this call can fail.  Otherwise the path is validated, the record in the collection takes
  the new value and \<open>updatedAt\<close> is set.
\<close>

definition saveContent :: "runtime \<Rightarrow> nat \<Rightarrow> document \<Rightarrow> string \<Rightarrow> store \<Rightarrow> js_error + document \<times> store" where
  "saveContent rt call doc content db =
     (if d_content doc = content then (if dbFails rt call then Inl MongoError else Inr (doc, db))
      else if \<not> requiredString content then Inl ValidationError
      else if dbFails rt call then Inl MongoError
      else Inr (doc\<lparr>d_content := content, d_updatedAt := now rt\<rparr>,
                db\<lparr>documents := map (\<lambda>d. if d_id d = d_id doc
                                             then d\<lparr>d_content := content, d_updatedAt := now rt\<rparr>
                                             else d) (documents db)\<rparr>))"

definition saveName :: "runtime \<Rightarrow> nat \<Rightarrow> document \<Rightarrow> string \<Rightarrow> store \<Rightarrow> js_error + document \<times> store" where
  "saveName rt call doc name db =
     (if d_name doc = name then (if dbFails rt call then Inl MongoError else Inr (doc, db))
      else if \<not> requiredString name then Inl ValidationError
      else if dbFails rt call then Inl MongoError
      else Inr (doc\<lparr>d_name := name, d_updatedAt := now rt\<rparr>,
                db\<lparr>documents := map (\<lambda>d. if d_id d = d_id doc
                                             then d\<lparr>d_name := name, d_updatedAt := now rt\<rparr>
                                             else d) (documents db)\<rparr>))"

definition saveVersionContent :: "runtime \<Rightarrow> nat \<Rightarrow> version \<Rightarrow> string \<Rightarrow> store \<Rightarrow> js_error + version \<times> store" where
  "saveVersionContent rt call ver content db =
     (if v_content ver = content then (if dbFails rt call then Inl MongoError else Inr (ver, db))
      else if \<not> requiredString content then Inl ValidationError
      else if dbFails rt call then Inl MongoError
      else Inr (ver\<lparr>v_content := content, v_updatedAt := now rt\<rparr>,
                db\<lparr>versions := map (\<lambda>v. if v_id v = v_id ver
                                            then v\<lparr>v_content := content, v_updatedAt := now rt\<rparr>
                                            else v) (versions db)\<rparr>))"

section \<open>The handlers (controllers/documentController.ts, the authenticated controller)\<close>

text \<open>A request: the route parameters, the fields of the JSON body the handlers read
  (\<open>None\<close> when a field is missing), and \<open>req.user._id\<close> as the middleware left it.\<close>

record request =
  params_id :: string
  params_versionId :: string
  body_name :: "json option"
  body_content :: "json option"
  body_isAutoSave :: "json option"
  user :: "oid option"

datatype payload =
    Message string
  | DocumentJson oid string string nat "oid option"
  | VersionJson oid oid string nat bool "stored_diff option"
  | MergeJson oid string nat oid

record response =
  status :: nat
  body :: payload

definition reply :: "nat \<Rightarrow> payload \<Rightarrow> response" where
  "reply code b = \<lparr>status = code, body = b\<rparr>"

text \<open>The \<open>catch\<close> block every handler ends with.\<close>

definition internalError :: response where
  "internalError = reply 500 (Message ''An internal server error occurred.'')"

text \<open>\<open>String.prototype.trim\<close>, on 8-bit characters.\<close>

definition isWhiteSpace :: "char \<Rightarrow> bool" where
  "isWhiteSpace c = (c \<in> {CHR 0x09, CHR 0x0A, CHR 0x0B, CHR 0x0C, CHR 0x0D, CHR 0x20, CHR 0xA0})"

definition trim :: "string \<Rightarrow> string" where
  "trim s = rev (dropWhile isWhiteSpace (rev (dropWhile isWhiteSpace s)))"

text \<open>\<open>!req.user || !doc.userId\<close>, then the comparison of the two identifiers.\<close>

definition accessDenied :: "oid option \<Rightarrow> oid option \<Rightarrow> bool" where
  "accessDenied reqUser owner =
     (case (reqUser, owner) of
        (Some u, Some v) \<Rightarrow> v \<noteq> u
      | _ \<Rightarrow> True)"

text \<open>
  \<open>try { oldContent = JSON.parse(doc.content); newContent = JSON.parse(content); }
   catch { oldContent = doc.content; newContent = content; }\<close>
\<close>

definition parseBoth :: "runtime \<Rightarrow> string \<Rightarrow> string \<Rightarrow> json \<times> json" where
  "parseBoth rt docContent content =
     (case JSON_parse rt docContent of
        None \<Rightarrow> (JStr docContent, JStr content)
      | Some oldContent \<Rightarrow>
          (case JSON_parse rt content of
             None \<Rightarrow> (JStr docContent, JStr content)
           | Some newContent \<Rightarrow> (oldContent, newContent)))"

definition contentDiff :: "runtime \<Rightarrow> string \<Rightarrow> string \<Rightarrow> js_error + delta option" where
  "contentDiff rt docContent content =
     (case parseBoth rt docContent content of (oldContent, newContent) \<Rightarrow> diffPatcher_diff oldContent newContent)"

definition createDocument :: "runtime \<Rightarrow> request \<Rightarrow> store \<Rightarrow> response \<times> store" where
  "createDocument rt req db =
     (case body_name req of
        Some (JStr name) \<Rightarrow>
          if trim name = [] then (reply 400 (Message ''Name must be a non-empty string.''), db)
          else (case body_content req of
            Some (JStr content) \<Rightarrow>
              (case user req of
                 None \<Rightarrow> (reply 401 (Message ''Unauthorized''), db)
               | Some uid \<Rightarrow>
                   (case Document_create rt 0 name content (Some uid) db of
                      Inl e \<Rightarrow> (internalError, db)
                    | Inr (doc, db1) \<Rightarrow>
                        (case Version_create rt 1 (d_id doc) content False (Some EmptyArray) None
                                (d_userId doc) db1 of
                           Inl e \<Rightarrow> (internalError, db1)
                         | Inr (version, db2) \<Rightarrow>
                             (reply 201 (DocumentJson (d_id doc) (d_name doc) (d_content doc)
                                           (d_createdAt doc) (d_userId doc)), db2))))
          | _ \<Rightarrow> (reply 400 (Message ''Content must be a string.''), db))
      | _ \<Rightarrow> (reply 400 (Message ''Name must be a non-empty string.''), db))"

definition createVersion :: "runtime \<Rightarrow> request \<Rightarrow> store \<Rightarrow> response \<times> store" where
  "createVersion rt req db =
     (case body_content req of
        Some (JStr content) \<Rightarrow>
          (case body_isAutoSave req of
             Some (JBool isAutoSave) \<Rightarrow>
               (case ObjectId rt (params_id req) of
                  None \<Rightarrow> (reply 400 (Message ''Invalid document ID''), db)
                | Some i \<Rightarrow>
                    (case Document_findById rt 0 i db of
                       Inl e \<Rightarrow> (internalError, db)
                     | Inr None \<Rightarrow> (reply 404 (Message ''Document not found''), db)
                     | Inr (Some doc) \<Rightarrow>
                         if accessDenied (user req) (d_userId doc)
                         then (reply 403 (Message ''Access denied.''), db)
                         else (case contentDiff rt (d_content doc) content of
                           Inl e \<Rightarrow> (internalError, db)
                         | Inr diff \<Rightarrow>
                             (case Version_create rt 1 (d_id doc) content isAutoSave
                                     (map_option Delta diff) None (d_userId doc) db of
                                Inl e \<Rightarrow> (internalError, db)
                              | Inr (version, db1) \<Rightarrow>
                                  (case saveContent rt 2 doc content db1 of
                                     Inl e \<Rightarrow> (internalError, db1)
                                   | Inr (doc', db2) \<Rightarrow>
                                       (reply 201 (VersionJson (v_id version) (v_documentId version)
                                                     (v_content version) (v_createdAt version)
                                                     (v_isAutoSave version) (v_diff version)), db2))))))
           | _ \<Rightarrow> (reply 400 (Message ''isAutoSave is required and must be a boolean.''), db))
      | _ \<Rightarrow> (reply 400 (Message ''Content must be a string.''), db))"

definition mergeVersion :: "runtime \<Rightarrow> request \<Rightarrow> store \<Rightarrow> response \<times> store" where
  "mergeVersion rt req db =
     (case (ObjectId rt (params_id req), ObjectId rt (params_versionId req)) of
        (Some i, Some versionId) \<Rightarrow>
          (case Document_findById rt 0 i db of
             Inl e \<Rightarrow> (internalError, db)
           | Inr None \<Rightarrow> (reply 404 (Message ''Document not found''), db)
           | Inr (Some doc) \<Rightarrow>
               if accessDenied (user req) (d_userId doc)
               then (reply 403 (Message ''Access denied.''), db)
               else (case Version_findOne rt 1 versionId i db of
                 Inl e \<Rightarrow> (internalError, db)
               | Inr None \<Rightarrow> (reply 404 (Message ''Version not found''), db)
               | Inr (Some version) \<Rightarrow>
                   (case saveContent rt 2 doc (v_content version) db of
                      Inl e \<Rightarrow> (internalError, db)
                    | Inr (doc', db1) \<Rightarrow>
                        (case Version_create rt 3 (d_id doc') (v_content version) False None
                                (Some (v_id version)) (d_userId doc') db1 of
                           Inl e \<Rightarrow> (internalError, db1)
                         | Inr (mergedVersion, db2) \<Rightarrow>
                             (reply 200 (MergeJson (d_id doc') (d_content doc') (d_createdAt doc')
                                           (v_id mergedVersion)), db2)))))
      | _ \<Rightarrow> (reply 400 (Message ''Invalid ID(s)''), db))"

text \<open>
  The response of the next two handlers reads \<open>doc.content\<close>, respectively
  \<open>version.content\<close>, and no binding \<open>doc\<close> or \<open>version\<close> is in scope there: evaluating the
  object literal throws a \<open>ReferenceError\<close>.
\<close>

definition unboundVariable :: "js_error + payload" where
  "unboundVariable = Inl ReferenceError"

definition updateDocumentName :: "runtime \<Rightarrow> request \<Rightarrow> store \<Rightarrow> response \<times> store" where
  "updateDocumentName rt req db =
     (case body_name req of
        Some (JStr name) \<Rightarrow>
          if trim name = [] then (reply 400 (Message ''Name must be a non-empty string.''), db)
          else (case ObjectId rt (params_id req) of
            None \<Rightarrow> (reply 400 (Message ''Invalid document ID''), db)
          | Some i \<Rightarrow>
              (case Document_findById rt 0 i db of
                 Inl e \<Rightarrow> (internalError, db)
               | Inr None \<Rightarrow> (reply 404 (Message ''Document not found''), db)
               | Inr (Some docToUpdate) \<Rightarrow>
                   if accessDenied (user req) (d_userId docToUpdate)
                   then (reply 403 (Message ''Access denied.''), db)
                   else (case saveName rt 1 docToUpdate name db of
                     Inl e \<Rightarrow> (internalError, db)
                   | Inr (docToUpdate', db1) \<Rightarrow>
                       (case unboundVariable of
                          Inl e \<Rightarrow> (internalError, db1)
                        | Inr json \<Rightarrow> (reply 200 json, db1)))))
      | _ \<Rightarrow> (reply 400 (Message ''Name must be a non-empty string.''), db))"

definition updateVersionContent :: "runtime \<Rightarrow> request \<Rightarrow> store \<Rightarrow> response \<times> store" where
  "updateVersionContent rt req db =
     (case body_content req of
        Some (JStr content) \<Rightarrow>
          (case ObjectId rt (params_versionId req) of
             None \<Rightarrow> (reply 400 (Message ''Invalid version ID''), db)
           | Some versionId \<Rightarrow>
               (case Version_findById rt 0 versionId db of
                  Inl e \<Rightarrow> (internalError, db)
                | Inr None \<Rightarrow> (reply 404 (Message ''Version not found''), db)
                | Inr (Some versionToUpdate) \<Rightarrow>
                    (case Document_findById rt 1 (v_documentId versionToUpdate) db of
                       Inl e \<Rightarrow> (internalError, db)
                     | Inr None \<Rightarrow> (reply 404 (Message ''Parent document not found''), db)
                     | Inr (Some parentDoc) \<Rightarrow>
                         if accessDenied (user req) (d_userId parentDoc)
                         then (reply 403 (Message ''Access denied.''), db)
                         else (case saveVersionContent rt 2 versionToUpdate content db of
                           Inl e \<Rightarrow> (internalError, db)
                         | Inr (versionToUpdate', db1) \<Rightarrow>
                             (case unboundVariable of
                                Inl e \<Rightarrow> (internalError, db1)
                              | Inr json \<Rightarrow> (reply 200 json, db1))))))
      | _ \<Rightarrow> (reply 400 (Message ''Content must be a string.''), db))"

section \<open>Predicates and sample data used in the statements\<close>

definition isStringField :: "json option \<Rightarrow> bool" where
  "isStringField f = (case f of Some (JStr s) \<Rightarrow> True | _ \<Rightarrow> False)"

definition isBooleanField :: "json option \<Rightarrow> bool" where
  "isBooleanField f = (case f of Some (JBool b) \<Rightarrow> True | _ \<Rightarrow> False)"

text \<open>A runtime for the concrete runs below: \<open>JSON.parse\<close> on the few texts they use (every
  other text they use is not JSON), identifiers written in decimal, no database failure.\<close>

definition sampleParse :: "string \<Rightarrow> json option" where
  "sampleParse s =
     (if s = ''[{\"id\":[]}]'' then Some (JArr [JObj [(''id'', JArr [])]])
      else if s = ''{\"a\":1}'' then Some (JObj [(''a'', JNum 1)])
      else if s = ''{\"a\":2}'' then Some (JObj [(''a'', JNum 2)])
      else if s = ''[{\"x\":1e999}]'' then Some (JArr [JObj [(''x'', JInfinity False)]])
      else if s = ''[{\"x\":null}]'' then Some (JArr [JObj [(''x'', JNull)]])
      else if s = ''1'' then Some (JNum 1)
      else if s = ''2'' then Some (JNum 2)
      else None)"

definition sampleObjectId :: "string \<Rightarrow> oid option" where
  "sampleObjectId s =
     (if s = ''0'' then Some 0 else if s = ''1'' then Some 1 else if s = ''2'' then Some 2
      else if s = ''3'' then Some 3 else None)"

text \<open>
  The ODM's copy of a value with \<open>minimize\<close>, for values whose member names mean nothing to
  it: a member that is an empty object, or becomes one, is left out; an object that is an
  item of an array is kept even when it ends up empty, and so are the two values of a
  replacement, which are items of the delta's array.
\<close>

fun minimizeValue :: "bool \<Rightarrow> json \<Rightarrow> json option"
  and minimizeMembers :: "(string \<times> json) list \<Rightarrow> (string \<times> json) list"
  and minimizeItems :: "json list \<Rightarrow> json list" where
  "minimizeValue isArrayChild (JObj kvs) =
     (if minimizeMembers kvs = [] \<and> \<not> isArrayChild then None
      else Some (JObj (minimizeMembers kvs)))"
| "minimizeValue isArrayChild (JArr xs) = Some (JArr (minimizeItems xs))"
| "minimizeValue isArrayChild v = Some v"
| "minimizeMembers [] = []"
| "minimizeMembers ((k, v) # kvs) =
     (case minimizeValue False v of
        None \<Rightarrow> minimizeMembers kvs
      | Some w \<Rightarrow> (k, w) # minimizeMembers kvs)"
| "minimizeItems [] = []"
| "minimizeItems (x # xs) =
     (case minimizeValue True x of None \<Rightarrow> x | Some y \<Rightarrow> y) # minimizeItems xs"

definition minimizeItem :: "json \<Rightarrow> json" where
  "minimizeItem v = (case minimizeValue True v of None \<Rightarrow> v | Some w \<Rightarrow> w)"

fun minimizeDelta :: "delta \<Rightarrow> delta option"
  and minimizeEntries :: "(string \<times> delta) list \<Rightarrow> (string \<times> delta) list"
  and minimizeArrayEntries :: "(akey \<times> delta) list \<Rightarrow> (akey \<times> delta) list" where
  "minimizeDelta (Replaced a b) = Some (Replaced (minimizeItem a) (minimizeItem b))"
| "minimizeDelta (Added a) = Some (Added (minimizeItem a))"
| "minimizeDelta (Deleted a) = Some (Deleted (minimizeItem a))"
| "minimizeDelta (Moved i) = Some (Moved i)"
| "minimizeDelta (TextDiff a b) = Some (TextDiff a b)"
| "minimizeDelta (ObjectDelta ds) =
     (if minimizeEntries ds = [] then None else Some (ObjectDelta (minimizeEntries ds)))"
| "minimizeDelta (ArrayDelta es) = Some (ArrayDelta (minimizeArrayEntries es))"
| "minimizeEntries [] = []"
| "minimizeEntries ((k, d) # ds) =
     (case minimizeDelta d of
        None \<Rightarrow> minimizeEntries ds
      | Some e \<Rightarrow> (k, e) # minimizeEntries ds)"
| "minimizeArrayEntries [] = []"
| "minimizeArrayEntries ((k, d) # es) =
     (case minimizeDelta d of
        None \<Rightarrow> minimizeArrayEntries es
      | Some e \<Rightarrow> (k, e) # minimizeArrayEntries es)"

definition sampleRuntime :: runtime where
  "sampleRuntime = \<lparr>JSON_parse = sampleParse, ObjectId = sampleObjectId, now = 7,
                     dbFails = (\<lambda>call. False), writeMixed = minimizeDelta\<rparr>"

definition emptyRequest :: request where
  "emptyRequest = \<lparr>params_id = [], params_versionId = [], body_name = None,
                    body_content = None, body_isAutoSave = None, user = None\<rparr>"

definition emptyStore :: store where
  "emptyStore = \<lparr>documents = [], versions = [], nextId = 0\<rparr>"

definition sampleCreate :: request where
  "sampleCreate = emptyRequest\<lparr>body_name := Some (JStr ''notes''),
                    body_content := Some (JStr ''hello''), user := Some 9\<rparr>"

text \<open>One document, owned by user 9, with its initial version and a later one.\<close>

definition sampleStore :: store where
  "sampleStore =
     \<lparr>documents = [\<lparr>d_id = 0, d_name = ''notes'', d_content = ''world'', d_userId = Some 9,
                     d_createdAt = 1, d_updatedAt = 2\<rparr>],
      versions = [\<lparr>v_id = 1, v_documentId = 0, v_content = ''hello'', v_isAutoSave = False,
                    v_userId = Some 9, v_diff = Some EmptyArray, v_mergedFrom = None,
                    v_createdAt = 1, v_updatedAt = 1\<rparr>,
                  \<lparr>v_id = 2, v_documentId = 0, v_content = ''world'', v_isAutoSave = True,
                    v_userId = Some 9,
                    v_diff = Some (Delta (Replaced (JStr ''hello'') (JStr ''world''))),
                    v_mergedFrom = None, v_createdAt = 2, v_updatedAt = 2\<rparr>],
      nextId = 3\<rparr>"

definition sampleEdit :: request where
  "sampleEdit = emptyRequest\<lparr>params_id := ''0'', params_versionId := ''1'',
                  body_name := Some (JStr ''renamed''),
                  body_content := Some (JStr ''hello again''),
                  body_isAutoSave := Some (JBool True), user := Some 9\<rparr>"


text \<open>An array item whose hash, if it has one, is compared by value: its \<open>id\<close> is not an
  array or an object.\<close>

fun idByValue :: "json \<Rightarrow> bool" where
  "idByValue (JObj kvs) = (case map_of kvs ''id'' of Some i \<Rightarrow> isPrimitive i | None \<Rightarrow> True)"
| "idByValue v = True"

text \<open>Every array item at every depth is such an item.  (That the property names of an
  object are distinct always holds in JavaScript; a list of pairs has to say it.)\<close>

fun regular :: "json \<Rightarrow> bool" where
  "regular (JArr xs) = list_all (\<lambda>x. idByValue x \<and> regular x) xs"
| "regular (JObj kvs) = (distinct (map fst kvs) \<and> list_all (\<lambda>kv. regular (snd kv)) kvs)"
| "regular v = True"

text \<open>The sample store with another content for its document.\<close>

definition storeWithContent :: "string \<Rightarrow> store" where
  "storeWithContent c = sampleStore\<lparr>documents := map (\<lambda>d. d\<lparr>d_content := c\<rparr>) (documents sampleStore)\<rparr>"

text \<open>Characters of a serialised number, and the characters that can follow a serialised
  value inside an array or an object.\<close>

definition isDigit :: "char \<Rightarrow> bool" where
  "isDigit c = (c \<in> set ''0123456789'')"

definition isNumeric :: "char \<Rightarrow> bool" where
  "isNumeric c = (c = CHR ''-'' \<or> isDigit c)"

definition delimited :: "string \<Rightarrow> bool" where
  "delimited r = (r = [] \<or> hd r \<in> {CHR '','', CHR '']'', CHR ''}''})"

text \<open>The first character of a serialisation tells the kind of value and is no delimiter.\<close>

fun leads :: "json \<Rightarrow> char \<Rightarrow> bool" where
  "leads JNull c = (c = CHR ''n'')"
| "leads (JBool b) c = (c = (if b then CHR ''t'' else CHR ''f''))"
| "leads (JNum n) c = isNumeric c"
| "leads (JInfinity negative) c = (c = CHR ''n'')"
| "leads (JStr s) c = (c = CHR 0x22)"
| "leads (JArr xs) c = (c = CHR ''['')"
| "leads (JObj kvs) c = (c = CHR ''{'')"

text \<open>No infinity anywhere in the value.\<close>

fun finiteNumbers :: "json \<Rightarrow> bool" where
  "finiteNumbers (JInfinity negative) = False"
| "finiteNumbers (JArr xs) = list_all finiteNumbers xs"
| "finiteNumbers (JObj kvs) = list_all (\<lambda>kv. finiteNumbers (snd kv)) kvs"
| "finiteNumbers v = True"

text \<open>An array item that is an object or an array and whose \<open>id\<close> is missing or falsy.\<close>

fun noTruthyId :: "json \<Rightarrow> bool" where
  "noTruthyId (JObj kvs) = (case map_of kvs ''id'' of None \<Rightarrow> True | Some i \<Rightarrow> \<not> truthy i)"
| "noTruthyId (JArr xs) = True"
| "noTruthyId v = False"

section \<open>Facts about the collections and the handlers' successful runs\<close>

lemmas sample_defs = sampleRuntime_def sampleCreate_def emptyRequest_def emptyStore_def
  sampleStore_def sampleParse_def sampleObjectId_def

lemmas db_defs = Document_create_def Version_create_def Document_findById_def
  Version_findById_def Version_findOne_def saveContent_def saveName_def
  saveVersionContent_def requiredString_def accessDenied_def trim_def isWhiteSpace_def Let_def
  storedDiff_def minimizeItem_def

lemma Document_create_Inr:
  assumes "Document_create rt call name content userId db = Inr (doc, db')"
  shows "doc = \<lparr>d_id = nextId db, d_name = name, d_content = content, d_userId = userId,
                 d_createdAt = now rt, d_updatedAt = now rt\<rparr>"
    and "db' = db\<lparr>documents := documents db @ [doc], nextId := Suc (nextId db)\<rparr>"
    and "\<not> dbFails rt call" and "name \<noteq> []" and "content \<noteq> []"
  using assms
  by (auto simp: Document_create_def Let_def requiredString_def split: if_splits)

lemma Version_create_Inr:
  assumes "Version_create rt call documentId content isAutoSave diff mergedFrom userId db = Inr (ver, db')"
  shows "ver = \<lparr>v_id = nextId db, v_documentId = documentId, v_content = content,
                 v_isAutoSave = isAutoSave, v_userId = userId, v_diff = diff,
                 v_mergedFrom = mergedFrom, v_createdAt = now rt, v_updatedAt = now rt\<rparr>"
    and "db' = db\<lparr>versions := versions db @ [ver\<lparr>v_diff := storedDiff rt diff\<rparr>],
                   nextId := Suc (nextId db)\<rparr>"
    and "\<not> dbFails rt call" and "content \<noteq> []"
  using assms
  by (auto simp: Version_create_def Let_def requiredString_def split: if_splits)

lemma status_simps [simp]:
  "status (reply code b) = code" "body (reply code b) = b" "status internalError = 500"
  by (simp_all add: reply_def internalError_def)

lemma Version_create_unchanged_diff:
  assumes "Version_create rt call documentId content isAutoSave diff mergedFrom userId db = Inr (ver, db')"
    and "storedDiff rt diff = diff"
  shows "db' = db\<lparr>versions := versions db @ [ver], nextId := Suc (nextId db)\<rparr>"
  using assms
  by (auto simp: Version_create_def Let_def split: if_splits)

lemma storedDiff_simps [simp]:
  "storedDiff rt None = None" "storedDiff rt (Some EmptyArray) = Some EmptyArray"
  "storedDiff rt (Some (Delta d)) = map_option Delta (writeMixed rt d)"
  by (simp_all add: storedDiff_def)

lemma createDocument_created:
  assumes "createDocument rt req db = (res, db')" and "status res = 201"
  obtains name content uid doc ver db1 where
    "body_name req = Some (JStr name)" "body_content req = Some (JStr content)" "user req = Some uid"
    "Document_create rt 0 name content (Some uid) db = Inr (doc, db1)"
    "Version_create rt 1 (d_id doc) content False (Some EmptyArray) None (d_userId doc) db1 = Inr (ver, db')"
  using assms unfolding createDocument_def
  by (auto split: option.splits json.splits if_splits sum.splits prod.splits)

lemma find_id_map:
  "find P (map (\<lambda>d. if P d then f d else d) ds) = map_option f (find P ds)"
  if "\<And>d. P (f d) = P d"
  using that by (induction ds) auto

lemma saveContent_Inr:
  assumes "saveContent rt call doc content db = Inr (doc', db')"
  shows "versions db' = versions db" and "nextId db' = nextId db"
    and "d_id doc' = d_id doc" and "d_content doc' = content" and "d_userId doc' = d_userId doc"
    and "d_createdAt doc' = d_createdAt doc"
    and "find (\<lambda>d. d_id d = d_id doc) (documents db) = Some doc
         \<Longrightarrow> map_option d_content (find (\<lambda>d. d_id d = d_id doc) (documents db')) = Some content"
  using assms
  by (auto simp: saveContent_def find_id_map split: if_splits)

lemma Document_findById_Some:
  assumes "Document_findById rt call i db = Inr (Some doc)"
  shows "find (\<lambda>d. d_id d = i) (documents db) = Some doc" and "d_id doc = i"
  using assms
  by (auto simp: Document_findById_def find_Some_iff split: if_splits)

lemma createVersion_created:
  assumes "createVersion rt req db = (res, db')" and "status res = 201"
  obtains content isAutoSave i doc diff ver db1 doc' where
    "body_content req = Some (JStr content)" "body_isAutoSave req = Some (JBool isAutoSave)"
    "ObjectId rt (params_id req) = Some i"
    "Document_findById rt 0 i db = Inr (Some doc)"
    "\<not> accessDenied (user req) (d_userId doc)"
    "contentDiff rt (d_content doc) content = Inr diff"
    "Version_create rt 1 (d_id doc) content isAutoSave (map_option Delta diff) None (d_userId doc) db
       = Inr (ver, db1)"
    "saveContent rt 2 doc content db1 = Inr (doc', db')"
  using assms unfolding createVersion_def
  by (auto split: option.splits json.splits if_splits sum.splits prod.splits)

lemma Version_findOne_Some:
  assumes "Version_findOne rt call versionId i db = Inr (Some v)"
  shows "find (\<lambda>v. v_id v = versionId \<and> v_documentId v = i) (versions db) = Some v"
    and "v_id v = versionId" and "v_documentId v = i"
  using assms
  by (auto simp: Version_findOne_def find_Some_iff split: if_splits)

lemma mergeVersion_merged:
  assumes "mergeVersion rt req db = (res, db')" and "status res = 200"
  obtains i versionId doc v doc' db1 mergedVersion where
    "ObjectId rt (params_id req) = Some i" "ObjectId rt (params_versionId req) = Some versionId"
    "Document_findById rt 0 i db = Inr (Some doc)"
    "\<not> accessDenied (user req) (d_userId doc)"
    "Version_findOne rt 1 versionId i db = Inr (Some v)"
    "saveContent rt 2 doc (v_content v) db = Inr (doc', db1)"
    "Version_create rt 3 (d_id doc') (v_content v) False None (Some (v_id v)) (d_userId doc') db1
       = Inr (mergedVersion, db')"
  using assms unfolding mergeVersion_def
  by (auto split: option.splits if_splits sum.splits prod.splits)

lemma trim_empty: "trim name \<noteq> [] \<Longrightarrow> name \<noteq> []"
  by (auto simp: trim_def)

lemma updateVersionContent_run:
  assumes "body_content req = Some (JStr X)" and "X \<noteq> []"
    and "ObjectId rt (params_versionId req) = Some vid"
    and "find (\<lambda>w. v_id w = vid) (versions db) = Some v"
    and "find (\<lambda>d. d_id d = v_documentId v) (documents db) = Some parentDoc"
    and "\<not> accessDenied (user req) (d_userId parentDoc)"
    and "\<not> dbFails rt 0" and "\<not> dbFails rt 1" and "\<not> dbFails rt 2"
  shows "updateVersionContent rt req db =
           (internalError,
            if v_content v = X then db
            else db\<lparr>versions := map (\<lambda>w. if v_id w = vid
                                            then w\<lparr>v_content := X, v_updatedAt := now rt\<rparr>
                                            else w) (versions db)\<rparr>)"
proof -
  have "v_id v = vid"
    using assms(4) by (auto simp: find_Some_iff)
  with assms show ?thesis
    by (simp add: updateVersionContent_def Version_findById_def Document_findById_def
        saveVersionContent_def requiredString_def unboundVariable_def)
qed

lemma updateDocumentName_run:
  assumes "body_name req = Some (JStr name)" and "trim name \<noteq> []"
    and "ObjectId rt (params_id req) = Some i"
    and "find (\<lambda>d. d_id d = i) (documents db) = Some doc"
    and "\<not> accessDenied (user req) (d_userId doc)"
    and "\<not> dbFails rt 0" and "\<not> dbFails rt 1"
  shows "updateDocumentName rt req db =
           (internalError,
            if d_name doc = name then db
            else db\<lparr>documents := map (\<lambda>d. if d_id d = i
                                             then d\<lparr>d_name := name, d_updatedAt := now rt\<rparr>
                                             else d) (documents db)\<rparr>)"
proof -
  have "d_id doc = i"
    using assms(4) by (auto simp: find_Some_iff)
  moreover have "name \<noteq> []"
    using assms(2) by (rule trim_empty)
  ultimately show ?thesis
    using assms
    by (simp add: updateDocumentName_def Document_findById_def saveName_def requiredString_def
        unboundVariable_def)
qed

lemma find_versions_updated:
  assumes "find (\<lambda>w. v_id w = vid) vs = Some v"
  shows "map_option v_content (find (\<lambda>w. v_id w = vid)
           (map (\<lambda>w. if v_id w = vid then w\<lparr>v_content := X, v_updatedAt := t\<rparr> else w) vs)) = Some X"
  using assms by (simp add: find_id_map)

lemma find_documents_renamed:
  assumes "find (\<lambda>d. d_id d = i) ds = Some doc"
  shows "map_option d_name (find (\<lambda>d. d_id d = i)
           (map (\<lambda>d. if d_id d = i then d\<lparr>d_name := name, d_updatedAt := t\<rparr> else d) ds)) = Some name"
  using assms by (simp add: find_id_map)



lemma matchItems_same:
  assumes "idByValue x"
  shows "matchItems x x = Inr True"
proof (cases "isPrimitive x")
  case True
  then show ?thesis
    by (simp add: matchItems_def strictEq_def)
next
  case False
  then show ?thesis
    using assms
    by (cases x) (auto simp: matchItems_def strictEq_def objectHash_def split: option.splits)
qed

lemma headMatch_same:
  "\<forall>x \<in> set xs. idByValue x \<Longrightarrow> headMatch xs xs = Inr (length xs)"
  by (induction xs) (simp_all add: matchItems_same)

lemma arraysPlan_same:
  assumes "\<forall>x \<in> set xs. idByValue x"
  shows "arraysPlan xs xs = Inr ([], headKids (length xs) xs xs)"
  using assms
  by (simp add: arraysPlan_def headMatch_same trimmed_def tailKids_def)

lemma collectChildren_none:
  "\<forall>c \<in> set cs. snd c = Inr None \<Longrightarrow> collectChildren cs = Inr []"
proof (induction cs)
  case Nil
  then show ?case by simp
next
  case (Cons c cs)
  then obtain k where "c = (k, Inr None)"
    by (cases c) auto
  with Cons show ?case
    by simp
qed

lemma headKids_same:
  "k \<in> set (headKids n xs xs) \<Longrightarrow> fst (snd k) = snd (snd k) \<and> fst (snd k) \<in> set xs"
proof -
  assume "k \<in> set (headKids n xs xs)"
  then have "snd k \<in> set (zip (take n xs) (take n xs))"
    unfolding headKids_def by (rule snd_enumerate_in)
  moreover obtain a b where "snd k = (a, b)"
    by (metis surj_pair)
  ultimately have "a \<in> set (take n xs) \<and> a = b"
    by (auto simp: zip_same)
  with \<open>snd k = (a, b)\<close> show ?thesis
    by (auto dest: in_set_takeD)
qed

lemma diffPatcher_diff_same:
  "regular x \<Longrightarrow> diffPatcher_diff x x = Inr None"
proof (induction x)
  case (JArr xs)
  then have ids: "\<forall>x \<in> set xs. idByValue x" and reg: "\<forall>x \<in> set xs. regular x"
    by (auto simp: list_all_iff)
  have "\<forall>c \<in> set (map (\<lambda>(i, a, b). (At i, diffPatcher_diff a b)) (headKids (length xs) xs xs)). snd c = Inr None"
  proof
    fix c
    assume "c \<in> set (map (\<lambda>(i, a, b). (At i, diffPatcher_diff a b)) (headKids (length xs) xs xs))"
    then obtain k where k: "k \<in> set (headKids (length xs) xs xs)"
      and c: "c = (At (fst k), diffPatcher_diff (fst (snd k)) (snd (snd k)))"
      by (auto simp: case_prod_beta)
    from headKids_same [OF k] reg JArr.IH c show "snd c = Inr None"
      by auto
  qed
  then have "collectChildren (map (\<lambda>(i, a, b). (At i, diffPatcher_diff a b)) (headKids (length xs) xs xs)) = Inr []"
    by (rule collectChildren_none)
  then show ?case
    by (simp add: arraysPlan_same [OF ids])
next
  case (JObj kvs)
  then have dist: "distinct (map fst kvs)" and reg: "\<forall>kv \<in> set kvs. regular (snd kv)"
    by (auto simp: list_all_iff)
  have known: "filter (\<lambda>p. propertyFilter (fst p) \<and> map_of kvs (fst p) = None
                            \<and> inheritedMember (fst p) = IsUndefined) kvs = []"
    by (auto simp: filter_empty_conv map_of_eq_None_iff)
  have "\<forall>c \<in> set (map (\<lambda>(name, v). (name, case map_of kvs name of
                                         None \<Rightarrow>
                                           (case inheritedMember name of
                                              IsFunction \<Rightarrow> Inl Error
                                            | IsPrototype \<Rightarrow> prototypeChild v
                                            | IsUndefined \<Rightarrow> Inr (Some (Deleted v)))
                                       | Some w \<Rightarrow> diffPatcher_diff v w))
                  (filter (\<lambda>p. propertyFilter (fst p)) kvs)). snd c = Inr None"
  proof
    fix c
    assume "c \<in> set (map (\<lambda>(name, v). (name, case map_of kvs name of
                                         None \<Rightarrow>
                                           (case inheritedMember name of
                                              IsFunction \<Rightarrow> Inl Error
                                            | IsPrototype \<Rightarrow> prototypeChild v
                                            | IsUndefined \<Rightarrow> Inr (Some (Deleted v)))
                                       | Some w \<Rightarrow> diffPatcher_diff v w))
                  (filter (\<lambda>p. propertyFilter (fst p)) kvs))"
    then obtain name v where m: "(name, v) \<in> set kvs"
      and c: "c = (name, case map_of kvs name of None \<Rightarrow>
                                           (case inheritedMember name of
                                              IsFunction \<Rightarrow> Inl Error
                                            | IsPrototype \<Rightarrow> prototypeChild v
                                            | IsUndefined \<Rightarrow> Inr (Some (Deleted v))) | Some w \<Rightarrow> diffPatcher_diff v w)"
      by auto
    from m dist have "map_of kvs name = Some v"
      by simp
    moreover from m reg have "regular v"
      by auto
    moreover from m have "diffPatcher_diff v v = Inr None" if "regular v"
      using that JObj.IH [of "(name, v)" v] by simp
    ultimately show "snd c = Inr None"
      by (simp add: c)
  qed
  then have "collectChildren (map (\<lambda>(name, v). (name, case map_of kvs name of
                                         None \<Rightarrow>
                                           (case inheritedMember name of
                                              IsFunction \<Rightarrow> Inl Error
                                            | IsPrototype \<Rightarrow> prototypeChild v
                                            | IsUndefined \<Rightarrow> Inr (Some (Deleted v)))
                                       | Some w \<Rightarrow> diffPatcher_diff v w))
                  (filter (\<lambda>p. propertyFilter (fst p)) kvs)) = Inr []"
    by (rule collectChildren_none)
  then show ?case
    by (simp add: known objectResult_def)
qed (simp_all add: strictEq_def)

lemma contentDiff_same:
  assumes "JSON_parse rt A = None \<or> (\<exists>a. JSON_parse rt A = Some a \<and> regular a)"
  shows "contentDiff rt A A = Inr None"
  using assms
  by (auto simp: contentDiff_def parseBoth_def diffPatcher_diff_same)

lemma sampleRuntime_fields:
  "JSON_parse sampleRuntime = sampleParse" "ObjectId sampleRuntime = sampleObjectId"
  "now sampleRuntime = 7" "dbFails sampleRuntime call = False"
  "writeMixed sampleRuntime = minimizeDelta"
  by (simp_all add: sampleRuntime_def)

lemma diffPatcher_diff_object_id_sample:
  "diffPatcher_diff (JArr [JObj [(''id'', JArr [])]]) (JArr [JObj [(''id'', JArr [])]])
     = Inr (Some (ArrayDelta [(Was 0, Deleted (JObj [(''id'', JArr [])])),
                              (At 0, Added (JObj [(''id'', JArr [])]))]))"
  by code_simp

subsection \<open>The serialisation can be read back\<close>

lemma digitChar_inj:
  assumes "a < 16" and "b < 16" and "digitChar a = digitChar b"
  shows "a = b"
proof -
  have "distinct ''0123456789abcdef''"
    by simp
  moreover have "a < length ''0123456789abcdef''" "b < length ''0123456789abcdef''"
    using assms by simp_all
  ultimately show ?thesis
    using assms(3) unfolding digitChar_def
    by (simp add: nth_eq_iff_index_eq assms)
qed

lemma digitChar_isDigit: "d < 10 \<Longrightarrow> isDigit (digitChar d)"
proof -
  assume d: "d < 10"
  have "''0123456789abcdef'' = ''0123456789'' @ ''abcdef''"
    by simp
  then have "digitChar d = ''0123456789'' ! d"
    unfolding digitChar_def using d by (simp only: nth_append) simp
  moreover have "d < length ''0123456789''"
    using d by simp
  ultimately show ?thesis
    unfolding isDigit_def by (metis nth_mem)
qed

lemma decimal_digits: "\<forall>c \<in> set (decimal n). isDigit c"
proof (induction n rule: decimal.induct)
  case (1 n)
  show ?case
  proof (cases "n < 10")
    case True
    then show ?thesis
      by (subst decimal.simps) (simp add: digitChar_isDigit)
  next
    case False
    with 1 show ?thesis
      by (subst decimal.simps) (simp add: digitChar_isDigit)
  qed
qed

lemma decimal_nonempty: "decimal n \<noteq> []"
  by (subst decimal.simps) simp

lemma decimal_inj: "decimal n = decimal m \<Longrightarrow> n = m"
proof (induction n arbitrary: m rule: decimal.induct)
  case (1 n)
  show ?case
  proof (cases "n < 10")
    case n: True
    show ?thesis
    proof (cases "m < 10")
      case True
      with n 1(2) have "digitChar n = digitChar m"
        by (simp add: decimal.simps [of n] decimal.simps [of m])
      with n True show ?thesis
        by (intro digitChar_inj) simp_all
    next
      case False
      with n 1(2) have "decimal (m div 10) = []"
        by (simp add: decimal.simps [of n] decimal.simps [of m])
      then show ?thesis
        by (simp add: decimal_nonempty)
    qed
  next
    case n: False
    show ?thesis
    proof (cases "m < 10")
      case True
      with n 1(2) have "decimal (n div 10) = []"
        by (simp add: decimal.simps [of n] decimal.simps [of m])
      then show ?thesis
        by (simp add: decimal_nonempty)
    next
      case False
      with n 1(2) have eq: "decimal (n div 10) = decimal (m div 10)"
        and d: "digitChar (n mod 10) = digitChar (m mod 10)"
        by (simp_all add: decimal.simps [of n] decimal.simps [of m])
      from 1(1) [OF n eq] have "n div 10 = m div 10" .
      moreover from d have "n mod 10 = m mod 10"
        by (intro digitChar_inj) simp_all
      ultimately show ?thesis
        by (metis div_mult_mod_eq)
    qed
  qed
qed

lemma showInt_numeric: "\<forall>c \<in> set (showInt i). isNumeric c"
  using decimal_digits by (auto simp: showInt_def isNumeric_def)

lemma showInt_nonempty: "showInt i \<noteq> []"
  by (simp add: showInt_def decimal_nonempty)

lemma showInt_inj: "showInt i = showInt j \<Longrightarrow> i = j"
proof -
  assume eq: "showInt i = showInt j"
  have nd: "\<not> isDigit CHR ''-''"
    by (simp add: isDigit_def)
  have no: "CHR ''-'' # s \<noteq> decimal n" for s n
  proof
    assume "CHR ''-'' # s = decimal n"
    then have "CHR ''-'' \<in> set (decimal n)"
      by (metis list.set_intros(1))
    with decimal_digits nd show False
      by blast
  qed
  show ?thesis
  proof (cases "i < 0")
    case i: True
    show ?thesis
    proof (cases "j < 0")
      case True
      with i eq have "nat (- i) = nat (- j)"
        by (simp add: showInt_def decimal_inj)
      with i True show ?thesis
        by simp
    next
      case False
      with i eq no show ?thesis
        by (simp add: showInt_def)
    qed
  next
    case i: False
    show ?thesis
    proof (cases "j < 0")
      case True
      with i eq no [of "decimal (nat (- j))" "nat i"] show ?thesis
        by (simp add: showInt_def)
    next
      case False
      with i eq have "nat i = nat j"
        by (simp add: showInt_def decimal_inj)
      with i False show ?thesis
        by simp
    qed
  qed
qed

lemma hex_inj:
  assumes "of_char c < (32::nat)" and "of_char d < (32::nat)"
    and "digitChar (of_char c div 16) = digitChar (of_char d div 16)"
    and "digitChar (of_char c mod 16) = digitChar (of_char d mod 16)"
  shows "c = d"
proof -
  have "(of_char c :: nat) div 16 = of_char d div 16"
    using assms(1,2) by (intro digitChar_inj [OF _ _ assms(3)]) simp_all
  moreover have "(of_char c :: nat) mod 16 = of_char d mod 16"
    by (intro digitChar_inj [OF _ _ assms(4)]) simp_all
  ultimately have "(of_char c :: nat) = of_char d"
    by (metis div_mult_mod_eq)
  then show ?thesis
    by simp
qed

lemma escapeChar_head: "\<exists>x xs. escapeChar c = x # xs \<and> x \<noteq> CHR 0x22"
  by (simp add: escapeChar_def)

lemma escapeChar_decode:
  assumes "escapeChar c @ u = escapeChar d @ u'"
  shows "c = d \<and> u = u'"
  using assms
  by (auto simp: escapeChar_def split: if_splits dest: hex_inj)

lemma escaped_decode:
  "concat (map escapeChar s) @ CHR 0x22 # r = concat (map escapeChar t) @ CHR 0x22 # r'
   \<Longrightarrow> s = t \<and> r = r'"
proof (induction s arbitrary: t)
  case Nil
  show ?case
  proof (cases t)
    case Nil
    with Nil.prems show ?thesis by simp
  next
    case (Cons d t')
    obtain x xs where "escapeChar d = x # xs" "x \<noteq> CHR 0x22"
      using escapeChar_head by blast
    with Nil.prems Cons show ?thesis
      by simp
  qed
next
  case (Cons c s')
  show ?case
  proof (cases t)
    case Nil
    obtain x xs where "escapeChar c = x # xs" "x \<noteq> CHR 0x22"
      using escapeChar_head by blast
    with Cons.prems Nil show ?thesis
      by simp
  next
    case t: (Cons d t')
    from Cons.prems t
    have "escapeChar c @ (concat (map escapeChar s') @ CHR 0x22 # r)
        = escapeChar d @ (concat (map escapeChar t') @ CHR 0x22 # r')"
      by simp
    from escapeChar_decode [OF this]
    have cd: "c = d" and rest: "concat (map escapeChar s') @ CHR 0x22 # r
        = concat (map escapeChar t') @ CHR 0x22 # r'"
      by simp_all
    from Cons.IH [OF rest] cd t show ?thesis
      by simp
  qed
qed

lemma quote_decode: "quote s @ r = quote t @ r' \<Longrightarrow> s = t \<and> r = r'"
  using escaped_decode [of s r t r'] by (simp add: quote_def)

lemma delimited_simps [simp]:
  "delimited []" "delimited (CHR '','' # s)" "delimited (CHR '']'' # s)" "delimited (CHR ''}'' # s)"
  by (simp_all add: delimited_def)

lemma commaSep_Cons: "commaSep (f x # map f xs) = f x @ concat (map (\<lambda>y. CHR '','' # f y) xs)"
  by (induction xs arbitrary: x) simp_all

lemma numeric_span:
  assumes "\<forall>c \<in> set s. isNumeric c" and "\<forall>c \<in> set t. isNumeric c"
    and "delimited r" and "delimited r'" and "s @ r = t @ r'"
  shows "s = t \<and> r = r'"
  using assms
proof (induction s arbitrary: t)
  case Nil
  show ?case
  proof (cases t)
    case Nil
    with Nil.prems show ?thesis by simp
  next
    case (Cons c t')
    with Nil.prems have "isNumeric c" and "r = c # t' @ r'"
      by simp_all
    with Nil.prems(3) show ?thesis
      by (auto simp: delimited_def isNumeric_def isDigit_def)
  qed
next
  case (Cons a s')
  show ?case
  proof (cases t)
    case Nil
    with Cons.prems have "isNumeric a" and "r' = a # s' @ r"
      by simp_all
    with Cons.prems(4) show ?thesis
      by (auto simp: delimited_def isNumeric_def isDigit_def)
  next
    case t: (Cons c t')
    with Cons.prems have "a = c" and "s' @ r = t' @ r'"
      by simp_all
    moreover from Cons.prems t have "\<forall>c \<in> set s'. isNumeric c" "\<forall>c \<in> set t'. isNumeric c"
      by simp_all
    ultimately show ?thesis
      using Cons.IH [of t'] Cons.prems(3,4) t by simp
  qed
qed

lemma stringify_leads: "\<exists>c s. stringify v = c # s \<and> leads v c"
proof (cases v)
  case (JNum n)
  obtain c s where "showInt n = c # s"
    using showInt_nonempty [of n] by (cases "showInt n") auto
  moreover from this showInt_numeric [of n] have "isNumeric c"
    by simp
  ultimately show ?thesis
    using JNum by simp
qed (simp_all add: quote_def)

lemma leads_not_closing: "leads v c \<Longrightarrow> c \<notin> {CHR '','', CHR '']'', CHR ''}''}"
  by (cases v) (auto simp: isNumeric_def isDigit_def split: if_splits)

lemma tails_decode:
  assumes dec: "\<And>x y r r'. x \<in> set xs \<Longrightarrow> y \<in> set ys \<Longrightarrow> f x @ r = f y @ r'
                  \<Longrightarrow> delimited r \<Longrightarrow> delimited r' \<Longrightarrow> x = y \<and> r = r'"
    and close: "c = CHR '']'' \<or> c = CHR ''}''"
    and eq: "concat (map (\<lambda>x. CHR '','' # f x) xs) @ c # r = concat (map (\<lambda>x. CHR '','' # f x) ys) @ c # r'"
  shows "xs = ys \<and> r = r'"
  using dec eq
proof (induction xs arbitrary: ys)
  case Nil
  with close show ?case
    by (cases ys) auto
next
  case (Cons x xs')
  show ?case
  proof (cases ys)
    case Nil
    with Cons.prems(2) close show ?thesis
      by auto
  next
    case ys: (Cons y ys')
    with Cons.prems(2) have
      "f x @ (concat (map (\<lambda>x. CHR '','' # f x) xs') @ c # r)
         = f y @ (concat (map (\<lambda>x. CHR '','' # f x) ys') @ c # r')"
      by simp
    moreover have "delimited (concat (map (\<lambda>x. CHR '','' # f x) zs) @ c # q)" for zs q
      using close by (cases zs) auto
    ultimately have xy: "x = y" and rest:
      "concat (map (\<lambda>x. CHR '','' # f x) xs') @ c # r = concat (map (\<lambda>x. CHR '','' # f x) ys') @ c # r'"
      using Cons.prems(1) [of x y] ys by simp_all
    have "xs' = ys' \<and> r = r'"
    proof (rule Cons.IH [OF _ rest])
      fix z w q q'
      assume "z \<in> set xs'" "w \<in> set ys'" "f z @ q = f w @ q'" "delimited q" "delimited q'"
      then show "z = w \<and> q = q'"
        using Cons.prems(1) [of z w q q'] ys by simp
    qed
    with xy ys show ?thesis
      by simp
  qed
qed

lemma items_decode:
  assumes dec: "\<And>x y r r'. x \<in> set xs \<Longrightarrow> y \<in> set ys \<Longrightarrow> f x @ r = f y @ r'
                  \<Longrightarrow> delimited r \<Longrightarrow> delimited r' \<Longrightarrow> x = y \<and> r = r'"
    and close: "c = CHR '']'' \<or> c = CHR ''}''"
    and start: "\<And>y. \<exists>a s. f y = a # s \<and> a \<noteq> c"
    and eq: "commaSep (map f xs) @ c # r = commaSep (map f ys) @ c # r'"
  shows "xs = ys \<and> r = r'"
proof (cases xs)
  case Nil
  show ?thesis
  proof (cases ys)
    case ys: Nil
    with Nil eq show ?thesis by simp
  next
    case ys: (Cons y ys')
    obtain a s where a: "f y = a # s" "a \<noteq> c"
      using start by blast
    from Nil ys eq have "c # r = f y @ concat (map (\<lambda>x. CHR '','' # f x) ys') @ c # r'"
      by (simp add: commaSep_Cons)
    with a show ?thesis
      by simp
  qed
next
  case xs: (Cons x xs')
  show ?thesis
  proof (cases ys)
    case Nil
    obtain a s where a: "f x = a # s" "a \<noteq> c"
      using start by blast
    from Nil xs eq have "f x @ concat (map (\<lambda>x. CHR '','' # f x) xs') @ c # r = c # r'"
      by (simp add: commaSep_Cons)
    with a show ?thesis
      by simp
  next
    case ys: (Cons y ys')
    from eq xs ys have
      "f x @ (concat (map (\<lambda>x. CHR '','' # f x) xs') @ c # r)
         = f y @ (concat (map (\<lambda>x. CHR '','' # f x) ys') @ c # r')"
      by (simp add: commaSep_Cons)
    moreover have "delimited (concat (map (\<lambda>x. CHR '','' # f x) zs) @ c # q)" for zs q
      using close by (cases zs) auto
    ultimately have xy: "x = y" and rest:
      "concat (map (\<lambda>x. CHR '','' # f x) xs') @ c # r = concat (map (\<lambda>x. CHR '','' # f x) ys') @ c # r'"
      using dec [of x y] xs ys by simp_all
    have "xs' = ys' \<and> r = r'"
    proof (rule tails_decode [OF _ close rest])
      fix z w q q'
      assume "z \<in> set xs'" "w \<in> set ys'" "f z @ q = f w @ q'" "delimited q" "delimited q'"
      then show "z = w \<and> q = q'"
        using dec [of z w q q'] xs ys by simp
    qed
    with xy xs ys show ?thesis
      by simp
  qed
qed

lemma leads_same_kind:
  assumes "stringify v @ r = stringify w @ r'"
  shows "\<exists>c. leads v c \<and> leads w c"
proof -
  obtain c s where v: "stringify v = c # s" "leads v c"
    using stringify_leads by blast
  obtain d t where w: "stringify w = d # t" "leads w d"
    using stringify_leads by blast
  from assms v w have "c = d"
    by simp
  with v w show ?thesis
    by blast
qed

lemma numeric_not_lead [simp]:
  "\<not> isNumeric CHR ''n''" "\<not> isNumeric CHR ''t''" "\<not> isNumeric CHR ''f''"
  "\<not> isNumeric CHR 0x22" "\<not> isNumeric CHR ''[''" "\<not> isNumeric CHR ''{''"
  by (simp_all add: isNumeric_def isDigit_def)

lemma stringify_decode:
  "stringify v @ r = stringify w @ r' \<Longrightarrow> finiteNumbers v \<Longrightarrow> finiteNumbers w
   \<Longrightarrow> delimited r \<Longrightarrow> delimited r' \<Longrightarrow> v = w \<and> r = r'"
proof (induction v arbitrary: w r r')
  case JNull
  from leads_same_kind [OF JNull(1)] JNull(3) have "w = JNull"
    by (cases w) (auto split: if_splits)
  with JNull show ?case by simp
next
  case (JBool b)
  from leads_same_kind [OF JBool(1)] obtain b' where "w = JBool b'"
    by (cases w) (auto split: if_splits)
  with JBool show ?case by (auto split: if_splits)
next
  case (JNum n)
  from leads_same_kind [OF JNum(1)] obtain m where w: "w = JNum m"
    by (cases w) (auto split: if_splits)
  with JNum have "showInt n @ r = showInt m @ r'"
    by simp
  from numeric_span [OF showInt_numeric showInt_numeric JNum(4,5) this]
  show ?case
    using w by (auto dest: showInt_inj)
next
  case (JInfinity negative)
  then show ?case by simp
next
  case (JStr s)
  from leads_same_kind [OF JStr(1)] obtain t where w: "w = JStr t"
    by (cases w) (auto split: if_splits)
  with JStr have "quote s @ r = quote t @ r'"
    by simp
  from quote_decode [OF this] w show ?case
    by simp
next
  case (JArr xs)
  from leads_same_kind [OF JArr(2)] obtain ys where w: "w = JArr ys"
    by (cases w) (auto split: if_splits)
  with JArr(2) have eq: "commaSep (map stringify xs) @ CHR '']'' # r
      = commaSep (map stringify ys) @ CHR '']'' # r'"
    by simp
  have "xs = ys \<and> r = r'"
  proof (rule items_decode [OF _ _ _ eq])
    fix x y q q'
    assume x: "x \<in> set xs" and y: "y \<in> set ys"
      and e: "stringify x @ q = stringify y @ q'" and d: "delimited q" "delimited q'"
    from x JArr(3) have "finiteNumbers x"
      by (simp add: list_all_iff)
    moreover from y JArr(4) w have "finiteNumbers y"
      by (simp add: list_all_iff)
    ultimately show "x = y \<and> q = q'"
      using JArr.IH [OF x e] d by simp
  next
    show "CHR '']'' = CHR '']'' \<or> CHR '']'' = CHR ''}''"
      by simp
  next
    fix y
    from stringify_leads [of y] leads_not_closing [of y]
    show "\<exists>a s. stringify y = a # s \<and> a \<noteq> CHR '']''"
      by auto
  qed
  with w show ?case
    by simp
next
  case (JObj kvs)
  from leads_same_kind [OF JObj(2)] obtain lws where w: "w = JObj lws"
    by (cases w) (auto split: if_splits)
  let ?f = "\<lambda>(k, v). quote k @ CHR '':'' # stringify v"
  from w JObj(2) have eq: "commaSep (map ?f kvs) @ CHR ''}'' # r = commaSep (map ?f lws) @ CHR ''}'' # r'"
    by simp
  have "kvs = lws \<and> r = r'"
  proof (rule items_decode [OF _ _ _ eq])
    fix x y q q'
    assume x: "x \<in> set kvs" and y: "y \<in> set lws"
      and e: "?f x @ q = ?f y @ q'" and d: "delimited q" "delimited q'"
    obtain k v where xk: "x = (k, v)" by (cases x)
    obtain k' v' where yk: "y = (k', v')" by (cases y)
    from e xk yk have "quote k @ (CHR '':'' # stringify v @ q) = quote k' @ (CHR '':'' # stringify v' @ q')"
      by simp
    from quote_decode [OF this] have kk: "k = k'" and vv: "stringify v @ q = stringify v' @ q'"
      by simp_all
    from x xk have sn: "v \<in> Basic_BNFs.snds x"
      by simp
    from x xk JObj(3) have fv: "finiteNumbers v"
      by (auto simp: list_all_iff)
    from y yk JObj(4) w have fw: "finiteNumbers v'"
      by (auto simp: list_all_iff)
    from JObj.IH [OF x sn vv fv fw d] kk xk yk show "x = y \<and> q = q'"
      by simp
  next
    show "CHR ''}'' = CHR '']'' \<or> CHR ''}'' = CHR ''}''"
      by simp
  next
    fix y :: "string \<times> json"
    show "\<exists>a s. ?f y = a # s \<and> a \<noteq> CHR ''}''"
      by (cases y) (simp add: quote_def)
  qed
  with w show ?case
    by simp
qed

lemma stringify_inj:
  "finiteNumbers v \<Longrightarrow> finiteNumbers w \<Longrightarrow> stringify v = stringify w \<Longrightarrow> v = w"
  using stringify_decode [of v "[]" w "[]"] by simp

lemma objectHash_fallback: "noTruthyId obj \<Longrightarrow> objectHash obj = Inr (JStr (stringify obj))"
  by (cases obj) (auto simp: objectHash_def split: option.splits)

lemma noTruthyId_object: "noTruthyId obj \<Longrightarrow> typeofObject obj \<and> \<not> isPrimitive obj"
  by (cases obj) simp_all

lemma matchItems_fallback:
  assumes "noTruthyId a" and "noTruthyId b"
  shows "matchItems a b = Inr (stringify a = stringify b)"
  using assms noTruthyId_object [of a] noTruthyId_object [of b]
  by (simp add: matchItems_def strictEq_def objectHash_fallback)

lemma stringify_sample:
  "stringify (JObj [(''id'', JNum 0), (''x'', JNum 1)]) = ''{\"id\":0,\"x\":1}''"
  by code_simp

lemma diffPatcher_diff_infinity_sample:
  "diffPatcher_diff (JArr [JObj [(''x'', JInfinity False)]]) (JArr [JObj [(''x'', JNull)]])
     = Inr (Some (ArrayDelta [(At 0, ObjectDelta [(''x'', Replaced (JInfinity False) JNull)])]))"
  by code_simp

subsection \<open>Members named like members of the prototype, and the written form of a diff\<close>

lemma added_prototype_name_not_reported:
  "diffPatcher_diff (JObj []) (JObj [(''toString'', JNum 1)]) = Inr None"
  by code_simp

lemma removed_prototype_name_throws:
  "diffPatcher_diff (JObj [(''constructor'', JNum 1)]) (JObj []) = Inl Error"
  by code_simp

lemma changed_prototype_name_reported:
  "diffPatcher_diff (JObj [(''toString'', JNum 1)]) (JObj [(''toString'', JNum 2)])
     = Inr (Some (ObjectDelta [(''toString'', Replaced (JNum 1) (JNum 2))]))"
  by code_simp

lemma minimize_nested_empty_object:
  "minimizeDelta (ObjectDelta [(''k'', Replaced (JObj [(''x'', JObj [])]) (JNum 1))])
     = Some (ObjectDelta [(''k'', Replaced (JObj []) (JNum 1))])"
  by (simp add: minimizeItem_def)

lemma updateVersionContent_empty:
  assumes "body_content req = Some (JStr [])"
    and "ObjectId rt (params_versionId req) = Some vid"
    and "find (\<lambda>w. v_id w = vid) (versions db) = Some v"
    and "find (\<lambda>d. d_id d = v_documentId v) (documents db) = Some parentDoc"
    and "\<not> accessDenied (user req) (d_userId parentDoc)"
    and "v_content v \<noteq> []"
  shows "updateVersionContent rt req db = (internalError, db)"
  using assms
  by (simp add: updateVersionContent_def Version_findById_def Document_findById_def
      saveVersionContent_def requiredString_def)

section \<open>Validation comes before any database call\<close>

text \<open>
  C6.  A \<open>createVersion\<close> request whose \<open>content\<close> is not a string, or whose \<open>isAutoSave\<close>
  is not a boolean, is answered with status 400 and leaves the database exactly as it
  was: no version is created and no document changes.
\<close>

theorem createVersion_rejects_bad_types:
  assumes "\<not> isStringField (body_content req) \<or> \<not> isBooleanField (body_isAutoSave req)"
  shows "status (fst (createVersion rt req db)) = 400 \<and> snd (createVersion rt req db) = db"
  using assms
  by (auto simp: createVersion_def isStringField_def isBooleanField_def reply_def
      split: option.splits json.splits)

theorem createVersion_rejects_bad_types_witness:
  "\<not> isStringField (body_content (emptyRequest\<lparr>body_content := Some (JNum 5)\<rparr>))
   \<and> status (fst (createVersion sampleRuntime (emptyRequest\<lparr>body_content := Some (JNum 5)\<rparr>) emptyStore)) = 400
   \<and> snd (createVersion sampleRuntime (emptyRequest\<lparr>body_content := Some (JNum 5)\<rparr>) emptyStore) = emptyStore"
  using createVersion_rejects_bad_types
    [of "emptyRequest\<lparr>body_content := Some (JNum 5)\<rparr>" sampleRuntime emptyStore]
  by (simp add: isStringField_def emptyRequest_def)

section \<open>Creating a document\<close>

text \<open>
  C7.  When \<open>createDocument\<close> answers 201 for a request with content \<open>C\<close>, the database has
  gained one document with content \<open>C\<close> and one version of that document whose content
  is \<open>C\<close>, whose diff is the empty array and whose \<open>isAutoSave\<close> is false.
\<close>

theorem createDocument_initial_version:
  assumes "createDocument rt req db = (res, db')" and "status res = 201"
  shows "\<exists>C doc ver. body_content req = Some (JStr C)
           \<and> documents db' = documents db @ [doc] \<and> d_content doc = C
           \<and> versions db' = versions db @ [ver] \<and> v_documentId ver = d_id doc
           \<and> v_content ver = C \<and> v_diff ver = Some EmptyArray \<and> v_isAutoSave ver = False"
proof -
  from assms obtain name content uid doc ver db1 where
    c: "body_content req = Some (JStr content)"
    and d: "Document_create rt 0 name content (Some uid) db = Inr (doc, db1)"
    and v: "Version_create rt 1 (d_id doc) content False (Some EmptyArray) None (d_userId doc) db1 = Inr (ver, db')"
    by (rule createDocument_created)
  have "storedDiff rt (Some EmptyArray) = Some EmptyArray"
    by simp
  from Document_create_Inr(1,2) [OF d] Version_create_Inr(1) [OF v]
    Version_create_unchanged_diff [OF v this] c
  show ?thesis
    by (intro exI [of _ content] exI [of _ doc] exI [of _ ver]) simp
qed

theorem createDocument_initial_version_witness:
  "status (fst (createDocument sampleRuntime sampleCreate emptyStore)) = 201
   \<and> (\<exists>C doc ver. body_content sampleCreate = Some (JStr C)
           \<and> documents (snd (createDocument sampleRuntime sampleCreate emptyStore)) = documents emptyStore @ [doc]
           \<and> d_content doc = C
           \<and> versions (snd (createDocument sampleRuntime sampleCreate emptyStore)) = versions emptyStore @ [ver]
           \<and> v_documentId ver = d_id doc
           \<and> v_content ver = C \<and> v_diff ver = Some EmptyArray \<and> v_isAutoSave ver = False)"
proof -
  have s: "status (fst (createDocument sampleRuntime sampleCreate emptyStore)) = 201"
    by (simp add: createDocument_def sample_defs db_defs)
  from createDocument_initial_version [OF surjective_pairing s] s show ?thesis
    by blast
qed

text \<open>
  C3 (as the code has it).  The document and its first version are written by two
  separate database calls.  When the second call does not fail, either both records
  come into existence and the answer is 201, or the answer is not 201 and the database is
  unchanged.
\<close>

theorem createDocument_both_or_neither:
  assumes "\<not> dbFails rt 1"
  shows "(\<exists>doc ver. status (fst (createDocument rt req db)) = 201
            \<and> documents (snd (createDocument rt req db)) = documents db @ [doc]
            \<and> versions (snd (createDocument rt req db)) = versions db @ [ver]
            \<and> v_documentId ver = d_id doc)
       \<or> (status (fst (createDocument rt req db)) \<noteq> 201 \<and> snd (createDocument rt req db) = db)"
proof (cases "status (fst (createDocument rt req db)) = 201")
  case True
  show ?thesis
  proof (rule createDocument_created [OF surjective_pairing True])
    fix name content uid doc ver db1
    assume d: "Document_create rt 0 name content (Some uid) db = Inr (doc, db1)"
      and v: "Version_create rt 1 (d_id doc) content False (Some EmptyArray) None (d_userId doc) db1
              = Inr (ver, snd (createDocument rt req db))"
    have "documents (snd (createDocument rt req db)) = documents db @ [doc]"
      by (simp add: Version_create_unchanged_diff [OF v] Document_create_Inr(2) [OF d])
    moreover have "versions (snd (createDocument rt req db)) = versions db @ [ver]"
      by (simp add: Version_create_unchanged_diff [OF v] Document_create_Inr(2) [OF d])
    moreover have "v_documentId ver = d_id doc"
      by (simp add: Version_create_Inr(1) [OF v])
    ultimately show ?thesis
      using True by blast
  qed
next
  case False
  have "snd (createDocument rt req db) = db"
    using False assms unfolding createDocument_def
    by (auto simp: Version_create_def Let_def requiredString_def
        split: option.splits json.splits if_splits sum.splits prod.splits
        dest: Document_create_Inr(5))
  with False show ?thesis
    by simp
qed

theorem createDocument_both_or_neither_witness:
  "\<not> dbFails sampleRuntime 1
   \<and> ((\<exists>doc ver. status (fst (createDocument sampleRuntime sampleCreate emptyStore)) = 201
            \<and> documents (snd (createDocument sampleRuntime sampleCreate emptyStore)) = documents emptyStore @ [doc]
            \<and> versions (snd (createDocument sampleRuntime sampleCreate emptyStore)) = versions emptyStore @ [ver]
            \<and> v_documentId ver = d_id doc)
       \<or> (status (fst (createDocument sampleRuntime sampleCreate emptyStore)) \<noteq> 201
           \<and> snd (createDocument sampleRuntime sampleCreate emptyStore) = emptyStore))"
proof -
  have h: "\<not> dbFails sampleRuntime 1"
    by (simp add: sampleRuntime_def)
  from createDocument_both_or_neither [OF h, of sampleCreate emptyStore] h show ?thesis
    by blast
qed

text \<open>The version write failing after the document write succeeded: the answer is 500,
  the document stays in the database and has no version.\<close>

theorem createDocument_not_atomic:
  "status (fst (createDocument (sampleRuntime\<lparr>dbFails := (\<lambda>call. call = 1)\<rparr>) sampleCreate emptyStore)) = 500
   \<and> length (documents (snd (createDocument (sampleRuntime\<lparr>dbFails := (\<lambda>call. call = 1)\<rparr>) sampleCreate emptyStore))) = 1
   \<and> versions (snd (createDocument (sampleRuntime\<lparr>dbFails := (\<lambda>call. call = 1)\<rparr>) sampleCreate emptyStore)) = []"
  by (simp add: createDocument_def sample_defs db_defs)

section \<open>Creating a version\<close>



section \<open>Merging a version\<close>

text \<open>
  C1 (as the code has it).  When \<open>mergeVersion\<close> answers 200 for a version \<open>v\<close> of the
  document, the document's content is \<open>v\<close>'s content afterwards and the version collection
  has gained exactly one version: of this document, with \<open>v\<close>'s content, \<open>isAutoSave\<close>
  false, \<open>mergedFrom\<close> equal to \<open>v\<close>'s identifier, and no diff at all, whatever the other
  versions of the document are.
\<close>

theorem mergeVersion_appends_restore_version:
  assumes "mergeVersion rt req db = (res, db')" and "status res = 200"
  shows "\<exists>i doc v ver.
           ObjectId rt (params_id req) = Some i
         \<and> find (\<lambda>d. d_id d = i) (documents db) = Some doc
         \<and> ObjectId rt (params_versionId req) = Some (v_id v)
         \<and> v \<in> set (versions db) \<and> v_documentId v = i
         \<and> versions db' = versions db @ [ver]
         \<and> v_documentId ver = i \<and> v_content ver = v_content v \<and> v_isAutoSave ver = False
         \<and> v_mergedFrom ver = Some (v_id v) \<and> v_diff ver = None
         \<and> map_option d_content (find (\<lambda>d. d_id d = i) (documents db')) = Some (v_content v)"
proof (rule mergeVersion_merged [OF assms])
  fix i versionId doc v doc' db1 mergedVersion
  assume i: "ObjectId rt (params_id req) = Some i"
    and vi: "ObjectId rt (params_versionId req) = Some versionId"
    and f: "Document_findById rt 0 i db = Inr (Some doc)"
    and fv: "Version_findOne rt 1 versionId i db = Inr (Some v)"
    and s: "saveContent rt 2 doc (v_content v) db = Inr (doc', db1)"
    and c: "Version_create rt 3 (d_id doc') (v_content v) False None (Some (v_id v)) (d_userId doc') db1
              = Inr (mergedVersion, db')"
  note found = Document_findById_Some [OF f]
  note foundv = Version_findOne_Some [OF fv]
  have mem: "v \<in> set (versions db)"
    using foundv(1) by (auto simp: find_Some_iff)
  have vs: "versions db' = versions db @ [mergedVersion]"
    by (simp add: Version_create_unchanged_diff [OF c] saveContent_Inr(1) [OF s])
  have ver: "v_documentId mergedVersion = i \<and> v_content mergedVersion = v_content v
      \<and> v_isAutoSave mergedVersion = False \<and> v_mergedFrom mergedVersion = Some (v_id v)
      \<and> v_diff mergedVersion = None"
    by (simp add: Version_create_Inr(1) [OF c] saveContent_Inr(3) [OF s] found(2))
  have "find (\<lambda>d. d_id d = d_id doc) (documents db) = Some doc"
    by (simp add: found)
  from saveContent_Inr(7) [OF s this]
  have doc: "map_option d_content (find (\<lambda>d. d_id d = i) (documents db')) = Some (v_content v)"
    by (simp add: found(2) Version_create_unchanged_diff [OF c])
  from i found(1) vi foundv(2,3) mem vs ver doc show ?thesis
    by blast
qed

theorem mergeVersion_appends_restore_version_witness:
  "status (fst (mergeVersion sampleRuntime sampleEdit sampleStore)) = 200
   \<and> (\<exists>i doc v ver.
           ObjectId sampleRuntime (params_id sampleEdit) = Some i
         \<and> find (\<lambda>d. d_id d = i) (documents sampleStore) = Some doc
         \<and> ObjectId sampleRuntime (params_versionId sampleEdit) = Some (v_id v)
         \<and> v \<in> set (versions sampleStore) \<and> v_documentId v = i
         \<and> versions (snd (mergeVersion sampleRuntime sampleEdit sampleStore)) = versions sampleStore @ [ver]
         \<and> v_documentId ver = i \<and> v_content ver = v_content v \<and> v_isAutoSave ver = False
         \<and> v_mergedFrom ver = Some (v_id v) \<and> v_diff ver = None
         \<and> map_option d_content (find (\<lambda>d. d_id d = i)
              (documents (snd (mergeVersion sampleRuntime sampleEdit sampleStore)))) = Some (v_content v))"
proof -
  have s: "status (fst (mergeVersion sampleRuntime sampleEdit sampleStore)) = 200"
    by (simp add: mergeVersion_def sampleEdit_def sample_defs db_defs)
  from mergeVersion_appends_restore_version [OF surjective_pairing s] s show ?thesis
    by blast
qed

text \<open>Merging the first version of the sample document back: the new version has no diff,
  where the diff patcher gives a replacement for the two contents.\<close>

theorem mergeVersion_stores_no_diff:
  "status (fst (mergeVersion sampleRuntime sampleEdit sampleStore)) = 200
   \<and> map v_content (versions (snd (mergeVersion sampleRuntime sampleEdit sampleStore)))
       = [''hello'', ''world'', ''hello'']
   \<and> v_diff (last (versions (snd (mergeVersion sampleRuntime sampleEdit sampleStore)))) = None
   \<and> contentDiff sampleRuntime ''world'' ''hello''
       = Inr (Some (Replaced (JStr ''world'') (JStr ''hello'')))"
  by (simp add: mergeVersion_def sampleEdit_def sample_defs db_defs contentDiff_def parseBoth_def
      textDiffMinLength_def)

section \<open>Editing a version in place\<close>

text \<open>
  C4 (as the code has it).  For an existing version \<open>v\<close> whose document exists and belongs
  to the caller, a non-empty string \<open>X\<close> and no database failure, \<open>updateVersionContent\<close>
  leaves the documents and the identifier counter as they are, keeps the version
  collection position by position, and changes in it only the content of the version with
  \<open>v\<close>'s identifier, to \<open>X\<close>, and its \<open>updatedAt\<close>; no diff is touched.
\<close>

theorem updateVersionContent_in_place:
  assumes "body_content req = Some (JStr X)" and "X \<noteq> []"
    and "ObjectId rt (params_versionId req) = Some vid"
    and "find (\<lambda>w. v_id w = vid) (versions db) = Some v"
    and "find (\<lambda>d. d_id d = v_documentId v) (documents db) = Some parentDoc"
    and "\<not> accessDenied (user req) (d_userId parentDoc)"
    and "\<not> dbFails rt 0" and "\<not> dbFails rt 1" and "\<not> dbFails rt 2"
  shows "documents (snd (updateVersionContent rt req db)) = documents db
       \<and> nextId (snd (updateVersionContent rt req db)) = nextId db
       \<and> versions (snd (updateVersionContent rt req db)) =
            (if v_content v = X then versions db
             else map (\<lambda>w. if v_id w = vid then w\<lparr>v_content := X, v_updatedAt := now rt\<rparr> else w)
                    (versions db))
       \<and> map_option v_content (find (\<lambda>w. v_id w = vid) (versions (snd (updateVersionContent rt req db))))
            = Some X"
proof (cases "v_content v = X")
  case True
  then show ?thesis
    by (simp add: updateVersionContent_run [OF assms] assms(4))
next
  case False
  then show ?thesis
    by (simp add: updateVersionContent_run [OF assms] find_versions_updated [OF assms(4)])
qed

theorem updateVersionContent_in_place_witness:
  "body_content sampleEdit = Some (JStr ''hello again'')
   \<and> find (\<lambda>w. v_id w = 1) (versions sampleStore) = Some (hd (versions sampleStore))
   \<and> v_content (hd (versions sampleStore)) = ''hello''
   \<and> documents (snd (updateVersionContent sampleRuntime sampleEdit sampleStore)) = documents sampleStore
   \<and> nextId (snd (updateVersionContent sampleRuntime sampleEdit sampleStore)) = nextId sampleStore
   \<and> versions (snd (updateVersionContent sampleRuntime sampleEdit sampleStore)) =
        (if v_content (hd (versions sampleStore)) = ''hello again'' then versions sampleStore
         else map (\<lambda>w. if v_id w = 1
                        then w\<lparr>v_content := ''hello again'', v_updatedAt := now sampleRuntime\<rparr>
                        else w)
                (versions sampleStore))
   \<and> map_option v_content (find (\<lambda>w. v_id w = 1)
        (versions (snd (updateVersionContent sampleRuntime sampleEdit sampleStore)))) = Some ''hello again''"
proof -
  have 1: "body_content sampleEdit = Some (JStr ''hello again'')"
    by (simp add: sampleEdit_def emptyRequest_def)
  have 2: "''hello again'' \<noteq> []"
    by simp
  have 3: "ObjectId sampleRuntime (params_versionId sampleEdit) = Some 1"
    by (simp add: sampleEdit_def sample_defs)
  have 4: "find (\<lambda>w. v_id w = 1) (versions sampleStore) = Some (hd (versions sampleStore))"
    by (simp add: sampleStore_def)
  have 5: "find (\<lambda>d. d_id d = v_documentId (hd (versions sampleStore))) (documents sampleStore)
             = Some (hd (documents sampleStore))"
    by (simp add: sampleStore_def)
  have 6: "\<not> accessDenied (user sampleEdit) (d_userId (hd (documents sampleStore)))"
    by (simp add: sampleEdit_def sample_defs accessDenied_def)
  have 7: "\<not> dbFails sampleRuntime 0" "\<not> dbFails sampleRuntime 1" "\<not> dbFails sampleRuntime 2"
    by (simp_all add: sampleRuntime_def)
  have 8: "v_content (hd (versions sampleStore)) = ''hello''"
    by (simp add: sampleStore_def)
  from updateVersionContent_in_place [OF 1 2 3 4 5 6 7] 1 4 8 show ?thesis
    by blast
qed

text \<open>The empty string passes the handler's type check and is then rejected by the schema
  when the version is saved: the contents stay as they were.\<close>

theorem updateVersionContent_empty_string_rejected:
  "status (fst (updateVersionContent sampleRuntime (sampleEdit\<lparr>body_content := Some (JStr [])\<rparr>) sampleStore)) = 500
   \<and> map v_content (versions (snd (updateVersionContent sampleRuntime
         (sampleEdit\<lparr>body_content := Some (JStr [])\<rparr>) sampleStore))) = [''hello'', ''world'']"
  by (simp add: updateVersionContent_def sampleEdit_def sample_defs db_defs)

text \<open>
  C9 (as the code has it).  In \<open>updateDocumentName\<close> and \<open>updateVersionContent\<close>, a request
  that passes the validation and the ownership check, and whose database calls succeed,
  has its new name, respectively its new non-empty content, saved; the answer is
  nevertheless the 500 of the \<open>catch\<close> block, because the response reads a variable that
  is not bound.  The empty content passes the validation of \<open>updateVersionContent\<close> too,
  but the schema rejects it when a version with another content is saved: the answer is
  the same 500 and nothing is changed.
\<close>

theorem update_handlers_answer_500_after_saving:
  "(body_name req = Some (JStr name) \<and> trim name \<noteq> []
      \<and> ObjectId rt (params_id req) = Some i
      \<and> find (\<lambda>d. d_id d = i) (documents db) = Some doc
      \<and> \<not> accessDenied (user req) (d_userId doc)
      \<and> \<not> dbFails rt 0 \<and> \<not> dbFails rt 1
    \<longrightarrow> fst (updateDocumentName rt req db) = internalError
      \<and> map_option d_name (find (\<lambda>d. d_id d = i) (documents (snd (updateDocumentName rt req db))))
           = Some name)
   \<and> (body_content req = Some (JStr X) \<and> X \<noteq> []
      \<and> ObjectId rt (params_versionId req) = Some vid
      \<and> find (\<lambda>w. v_id w = vid) (versions db) = Some v
      \<and> find (\<lambda>d. d_id d = v_documentId v) (documents db) = Some parentDoc
      \<and> \<not> accessDenied (user req) (d_userId parentDoc)
      \<and> \<not> dbFails rt 0 \<and> \<not> dbFails rt 1 \<and> \<not> dbFails rt 2
    \<longrightarrow> fst (updateVersionContent rt req db) = internalError
      \<and> map_option v_content (find (\<lambda>w. v_id w = vid) (versions (snd (updateVersionContent rt req db))))
           = Some X)
   \<and> (body_content req = Some (JStr [])
      \<and> ObjectId rt (params_versionId req) = Some vid
      \<and> find (\<lambda>w. v_id w = vid) (versions db) = Some v
      \<and> find (\<lambda>d. d_id d = v_documentId v) (documents db) = Some parentDoc
      \<and> \<not> accessDenied (user req) (d_userId parentDoc)
      \<and> v_content v \<noteq> []
    \<longrightarrow> updateVersionContent rt req db = (internalError, db))"
proof (intro conjI impI)
  assume a: "body_name req = Some (JStr name) \<and> trim name \<noteq> []
      \<and> ObjectId rt (params_id req) = Some i
      \<and> find (\<lambda>d. d_id d = i) (documents db) = Some doc
      \<and> \<not> accessDenied (user req) (d_userId doc)
      \<and> \<not> dbFails rt 0 \<and> \<not> dbFails rt 1"
  then have run: "updateDocumentName rt req db =
           (internalError,
            if d_name doc = name then db
            else db\<lparr>documents := map (\<lambda>d. if d_id d = i
                                             then d\<lparr>d_name := name, d_updatedAt := now rt\<rparr>
                                             else d) (documents db)\<rparr>)"
    using updateDocumentName_run [of req name rt i db doc] by blast
  show "fst (updateDocumentName rt req db) = internalError"
    by (simp add: run)
  from a have f: "find (\<lambda>d. d_id d = i) (documents db) = Some doc"
    by simp
  show "map_option d_name (find (\<lambda>d. d_id d = i) (documents (snd (updateDocumentName rt req db))))
           = Some name"
    by (cases "d_name doc = name") (simp_all add: run f find_documents_renamed [OF f])
next
  assume a: "body_content req = Some (JStr X) \<and> X \<noteq> []
      \<and> ObjectId rt (params_versionId req) = Some vid
      \<and> find (\<lambda>w. v_id w = vid) (versions db) = Some v
      \<and> find (\<lambda>d. d_id d = v_documentId v) (documents db) = Some parentDoc
      \<and> \<not> accessDenied (user req) (d_userId parentDoc)
      \<and> \<not> dbFails rt 0 \<and> \<not> dbFails rt 1 \<and> \<not> dbFails rt 2"
  then have run: "updateVersionContent rt req db =
           (internalError,
            if v_content v = X then db
            else db\<lparr>versions := map (\<lambda>w. if v_id w = vid
                                            then w\<lparr>v_content := X, v_updatedAt := now rt\<rparr>
                                            else w) (versions db)\<rparr>)"
    using updateVersionContent_run [of req X rt vid db v parentDoc] by blast
  show "fst (updateVersionContent rt req db) = internalError"
    by (simp add: run)
  from a have f: "find (\<lambda>w. v_id w = vid) (versions db) = Some v"
    by simp
  show "map_option v_content (find (\<lambda>w. v_id w = vid) (versions (snd (updateVersionContent rt req db))))
           = Some X"
    by (cases "v_content v = X") (simp_all add: run f find_versions_updated [OF f])
next
  assume "body_content req = Some (JStr [])
      \<and> ObjectId rt (params_versionId req) = Some vid
      \<and> find (\<lambda>w. v_id w = vid) (versions db) = Some v
      \<and> find (\<lambda>d. d_id d = v_documentId v) (documents db) = Some parentDoc
      \<and> \<not> accessDenied (user req) (d_userId parentDoc)
      \<and> v_content v \<noteq> []"
  then show "updateVersionContent rt req db = (internalError, db)"
    using updateVersionContent_empty [of req rt vid db v parentDoc] by blast
qed

theorem update_handlers_answer_500_after_saving_witness:
  "status (fst (updateDocumentName sampleRuntime sampleEdit sampleStore)) = 500
   \<and> map d_name (documents sampleStore) = [''notes'']
   \<and> map d_name (documents (snd (updateDocumentName sampleRuntime sampleEdit sampleStore))) = [''renamed'']
   \<and> status (fst (updateVersionContent sampleRuntime sampleEdit sampleStore)) = 500
   \<and> map v_content (versions sampleStore) = [''hello'', ''world'']
   \<and> map v_content (versions (snd (updateVersionContent sampleRuntime sampleEdit sampleStore)))
        = [''hello again'', ''world'']
   \<and> fst (updateDocumentName sampleRuntime sampleEdit sampleStore) = internalError
   \<and> map_option d_name (find (\<lambda>d. d_id d = 0)
        (documents (snd (updateDocumentName sampleRuntime sampleEdit sampleStore)))) = Some ''renamed''
   \<and> fst (updateVersionContent sampleRuntime sampleEdit sampleStore) = internalError
   \<and> map_option v_content (find (\<lambda>w. v_id w = 1)
        (versions (snd (updateVersionContent sampleRuntime sampleEdit sampleStore)))) = Some ''hello again''
   \<and> body_content (sampleEdit\<lparr>body_content := Some (JStr [])\<rparr>) = Some (JStr [])
   \<and> updateVersionContent sampleRuntime (sampleEdit\<lparr>body_content := Some (JStr [])\<rparr>) sampleStore
       = (internalError, sampleStore)"
proof -
  have hyps:
    "body_name sampleEdit = Some (JStr ''renamed'')" "trim ''renamed'' \<noteq> []"
    "ObjectId sampleRuntime (params_id sampleEdit) = Some 0"
    "find (\<lambda>d. d_id d = 0) (documents sampleStore) = Some (hd (documents sampleStore))"
    "\<not> accessDenied (user sampleEdit) (d_userId (hd (documents sampleStore)))"
    "\<not> dbFails sampleRuntime 0" "\<not> dbFails sampleRuntime 1" "\<not> dbFails sampleRuntime 2"
    "body_content sampleEdit = Some (JStr ''hello again'')" "''hello again'' \<noteq> []"
    "ObjectId sampleRuntime (params_versionId sampleEdit) = Some 1"
    "find (\<lambda>w. v_id w = 1) (versions sampleStore) = Some (hd (versions sampleStore))"
    "find (\<lambda>d. d_id d = v_documentId (hd (versions sampleStore))) (documents sampleStore)
       = Some (hd (documents sampleStore))"
    by (simp_all add: sampleEdit_def sample_defs db_defs)
  have direct:
    "status (fst (updateDocumentName sampleRuntime sampleEdit sampleStore)) = 500"
    "map d_name (documents sampleStore) = [''notes'']"
    "map d_name (documents (snd (updateDocumentName sampleRuntime sampleEdit sampleStore))) = [''renamed'']"
    "status (fst (updateVersionContent sampleRuntime sampleEdit sampleStore)) = 500"
    "map v_content (versions sampleStore) = [''hello'', ''world'']"
    "map v_content (versions (snd (updateVersionContent sampleRuntime sampleEdit sampleStore)))
        = [''hello again'', ''world'']"
    by (simp_all add: updateDocumentName_def updateVersionContent_def sampleEdit_def sample_defs
        db_defs unboundVariable_def)
  have empty:
    "body_content (sampleEdit\<lparr>body_content := Some (JStr [])\<rparr>) = Some (JStr [])"
    "ObjectId sampleRuntime (params_versionId (sampleEdit\<lparr>body_content := Some (JStr [])\<rparr>)) = Some 1"
    "\<not> accessDenied (user (sampleEdit\<lparr>body_content := Some (JStr [])\<rparr>))
         (d_userId (hd (documents sampleStore)))"
    "v_content (hd (versions sampleStore)) \<noteq> []"
    by (simp_all add: sampleEdit_def sample_defs db_defs)
  from update_handlers_answer_500_after_saving
    [of "sampleEdit\<lparr>body_content := Some (JStr [])\<rparr>" "''renamed''" sampleRuntime 0 sampleStore
        "hd (documents sampleStore)" "''hello again''" 1 "hd (versions sampleStore)"
        "hd (documents sampleStore)"]
    empty hyps(12,13)
  have unchanged: "updateVersionContent sampleRuntime (sampleEdit\<lparr>body_content := Some (JStr [])\<rparr>)
      sampleStore = (internalError, sampleStore)"
    by blast
  from update_handlers_answer_500_after_saving
    [of sampleEdit "''renamed''" sampleRuntime 0 sampleStore "hd (documents sampleStore)"
        "''hello again''" 1 "hd (versions sampleStore)" "hd (documents sampleStore)"]
    hyps direct unchanged empty(1)
  show ?thesis
    by simp
qed

text \<open>The empty content for the second version of the sample document: the type check
  and the ownership check pass, the answer is 500 and the store is as it was.\<close>

theorem updateVersionContent_empty_content_not_saved:
  "isStringField (body_content (sampleEdit\<lparr>params_versionId := ''2'', body_content := Some (JStr [])\<rparr>))
   \<and> \<not> accessDenied (user (sampleEdit\<lparr>params_versionId := ''2'', body_content := Some (JStr [])\<rparr>))
         (d_userId (hd (documents sampleStore)))
   \<and> map v_content (versions sampleStore) = [''hello'', ''world'']
   \<and> updateVersionContent sampleRuntime
         (sampleEdit\<lparr>params_versionId := ''2'', body_content := Some (JStr [])\<rparr>) sampleStore
       = (internalError, sampleStore)"
  by (simp add: updateVersionContent_def isStringField_def sampleEdit_def sample_defs db_defs)

section \<open>What the diff of two contents is\<close>




text \<open>
  C8 (as the code has it).  For a content that is not JSON, or whose parsed value has no
  array item with an array or an object as its \<open>id\<close>, the diff of the content against
  itself is empty, and a \<open>createVersion\<close> that answers 201 for the document's current content
  appends a version without a diff.
\<close>

theorem createVersion_same_content_no_diff:
  assumes "JSON_parse rt A = None \<or> (\<exists>a. JSON_parse rt A = Some a \<and> regular a)"
    and "createVersion rt req db = (res, db')" and "status res = 201"
    and "body_content req = Some (JStr A)"
    and "ObjectId rt (params_id req) = Some i"
    and "find (\<lambda>d. d_id d = i) (documents db) = Some doc" and "d_content doc = A"
  shows "contentDiff rt A A = Inr None
       \<and> (\<exists>ver. versions db' = versions db @ [ver] \<and> v_content ver = A \<and> v_diff ver = None)"
proof (rule createVersion_created [OF assms(2,3)])
  fix content isAutoSave j doc0 diff ver db1 doc'
  assume c: "body_content req = Some (JStr content)"
    and j: "ObjectId rt (params_id req) = Some j"
    and f: "Document_findById rt 0 j db = Inr (Some doc0)"
    and d: "contentDiff rt (d_content doc0) content = Inr diff"
    and v: "Version_create rt 1 (d_id doc0) content isAutoSave (map_option Delta diff) None (d_userId doc0) db
              = Inr (ver, db1)"
    and s: "saveContent rt 2 doc0 content db1 = Inr (doc', db')"
  have same: "contentDiff rt A A = Inr None"
    using assms(1) by (rule contentDiff_same)
  from c assms(4) have "content = A"
    by simp
  moreover from j assms(5) Document_findById_Some(1) [OF f] assms(6) have "doc0 = doc"
    by simp
  ultimately have none: "diff = None"
    using d same assms(7) by simp
  then have "v_content ver = A \<and> v_diff ver = None"
    by (simp add: Version_create_Inr(1) [OF v] \<open>content = A\<close>)
  moreover have "db1 = db\<lparr>versions := versions db @ [ver], nextId := Suc (nextId db)\<rparr>"
    using v none by (intro Version_create_unchanged_diff [OF v]) simp
  then have "versions db' = versions db @ [ver]"
    by (simp add: saveContent_Inr(1) [OF s])
  ultimately show ?thesis
    using same by blast
qed

theorem createVersion_same_content_no_diff_witness:
  "JSON_parse sampleRuntime ''{\"a\":1}'' = Some (JObj [(''a'', JNum 1)])
   \<and> regular (JObj [(''a'', JNum 1)])
   \<and> status (fst (createVersion sampleRuntime (sampleEdit\<lparr>body_content := Some (JStr ''{\"a\":1}'')\<rparr>)
        (storeWithContent ''{\"a\":1}''))) = 201
   \<and> contentDiff sampleRuntime ''{\"a\":1}'' ''{\"a\":1}'' = Inr None
   \<and> (\<exists>ver. versions (snd (createVersion sampleRuntime (sampleEdit\<lparr>body_content := Some (JStr ''{\"a\":1}'')\<rparr>)
                  (storeWithContent ''{\"a\":1}'')))
              = versions (storeWithContent ''{\"a\":1}'') @ [ver]
            \<and> v_content ver = ''{\"a\":1}'' \<and> v_diff ver = None)"
proof -
  let ?req = "sampleEdit\<lparr>body_content := Some (JStr ''{\"a\":1}'')\<rparr>"
  let ?db = "storeWithContent ''{\"a\":1}''"
  have p: "JSON_parse sampleRuntime ''{\"a\":1}'' = Some (JObj [(''a'', JNum 1)])"
    by (simp add: sample_defs)
  have r: "regular (JObj [(''a'', JNum 1)])"
    by simp
  have 1: "JSON_parse sampleRuntime ''{\"a\":1}'' = None
           \<or> (\<exists>a. JSON_parse sampleRuntime ''{\"a\":1}'' = Some a \<and> regular a)"
    using p r by simp
  have d: "contentDiff sampleRuntime ''{\"a\":1}'' ''{\"a\":1}'' = Inr None"
    using 1 by (rule contentDiff_same)
  have 3: "status (fst (createVersion sampleRuntime ?req ?db)) = 201"
    by (simp add: createVersion_def d sampleEdit_def storeWithContent_def sampleRuntime_fields
        sampleObjectId_def emptyRequest_def sampleStore_def db_defs)
  have 4: "body_content ?req = Some (JStr ''{\"a\":1}'')"
    by simp
  have 5: "ObjectId sampleRuntime (params_id ?req) = Some 0"
    by (simp add: sampleEdit_def sample_defs)
  have 6: "find (\<lambda>d. d_id d = 0) (documents ?db) = Some (hd (documents ?db))"
    by (simp add: storeWithContent_def sampleStore_def)
  have 7: "d_content (hd (documents ?db)) = ''{\"a\":1}''"
    by (simp add: storeWithContent_def sampleStore_def)
  from createVersion_same_content_no_diff [OF 1 surjective_pairing 3 4 5 6 7] p r 3
  show ?thesis
    by blast
qed

text \<open>An array item whose \<open>id\<close> is an array: the two parses give two different arrays, the
  hashes are not identical, and the unchanged item is reported as removed and added.\<close>

theorem createVersion_same_content_object_id:
  "JSON_parse sampleRuntime ''[{\"id\":[]}]'' = Some (JArr [JObj [(''id'', JArr [])]])
   \<and> status (fst (createVersion sampleRuntime (sampleEdit\<lparr>body_content := Some (JStr ''[{\"id\":[]}]'')\<rparr>)
        (storeWithContent ''[{\"id\":[]}]''))) = 201
   \<and> v_diff (last (versions (snd (createVersion sampleRuntime
         (sampleEdit\<lparr>body_content := Some (JStr ''[{\"id\":[]}]'')\<rparr>) (storeWithContent ''[{\"id\":[]}]''))))) =
       Some (Delta (ArrayDelta [(Was 0, Deleted (JObj [(''id'', JArr [])])),
                                (At 0, Added (JObj [(''id'', JArr [])]))]))"
proof -
  have d: "contentDiff sampleRuntime ''[{\"id\":[]}]'' ''[{\"id\":[]}]''
     = Inr (Some (ArrayDelta [(Was 0, Deleted (JObj [(''id'', JArr [])])),
                              (At 0, Added (JObj [(''id'', JArr [])]))]))"
  proof -
    have "parseBoth sampleRuntime ''[{\"id\":[]}]'' ''[{\"id\":[]}]''
        = (JArr [JObj [(''id'', JArr [])]], JArr [JObj [(''id'', JArr [])]])"
      by (simp add: parseBoth_def sampleRuntime_fields sampleParse_def)
    then show ?thesis
      by (simp only: contentDiff_def prod.case diffPatcher_diff_object_id_sample)
  qed
  show ?thesis
    by (simp add: createVersion_def d sampleEdit_def storeWithContent_def sampleRuntime_fields
        sampleObjectId_def sampleParse_def emptyRequest_def sampleStore_def db_defs)
qed

section \<open>The identity of array items\<close>

text \<open>
  C10 (as the code has it).  \<open>objectHash\<close> returns the item's \<open>id\<close> exactly when it is truthy,
  that is, not \<open>null\<close>, \<open>0\<close>, the empty string or \<open>false\<close>; an item whose \<open>id\<close> is missing or
  falsy is identified by its serialisation.  Two such items are matched exactly when their
  serialisations are equal; when neither contains an infinity this means that they are
  equal, so that items differing in any field are not matched.
\<close>

theorem objectHash_falls_back_to_serialisation:
  "(propId obj = Inr (Some i) \<and> truthy i \<longrightarrow> objectHash obj = Inr i)
   \<and> (truthy i = (i \<noteq> JNull \<and> i \<noteq> JNum 0 \<and> i \<noteq> JStr [] \<and> i \<noteq> JBool False))
   \<and> (noTruthyId obj \<longrightarrow> objectHash obj = Inr (JStr (stringify obj)))
   \<and> (noTruthyId a \<and> noTruthyId b \<longrightarrow> matchItems a b = Inr (stringify a = stringify b))
   \<and> (noTruthyId a \<and> noTruthyId b \<and> finiteNumbers a \<and> finiteNumbers b
        \<longrightarrow> matchItems a b = Inr (a = b))"
proof (intro conjI impI)
  assume "propId obj = Inr (Some i) \<and> truthy i"
  then show "objectHash obj = Inr i"
    by (simp add: objectHash_def)
next
  show "truthy i = (i \<noteq> JNull \<and> i \<noteq> JNum 0 \<and> i \<noteq> JStr [] \<and> i \<noteq> JBool False)"
    by (cases i) auto
next
  assume "noTruthyId obj"
  then show "objectHash obj = Inr (JStr (stringify obj))"
    by (rule objectHash_fallback)
next
  assume "noTruthyId a \<and> noTruthyId b"
  then show "matchItems a b = Inr (stringify a = stringify b)"
    by (simp add: matchItems_fallback)
next
  assume ab: "noTruthyId a \<and> noTruthyId b \<and> finiteNumbers a \<and> finiteNumbers b"
  then have "(stringify a = stringify b) = (a = b)"
    using stringify_inj [of a b] by auto
  with ab show "matchItems a b = Inr (a = b)"
    by (simp add: matchItems_fallback)
qed

theorem objectHash_falls_back_to_serialisation_witness:
  "propId (JObj [(''id'', JNum 7)]) = Inr (Some (JNum 7)) \<and> truthy (JNum 7)
   \<and> objectHash (JObj [(''id'', JNum 7)]) = Inr (JNum 7)
   \<and> noTruthyId (JObj [(''id'', JNum 0), (''x'', JNum 1)])
   \<and> noTruthyId (JObj [(''id'', JNum 0), (''x'', JNum 2)])
   \<and> finiteNumbers (JObj [(''id'', JNum 0), (''x'', JNum 1)])
   \<and> finiteNumbers (JObj [(''id'', JNum 0), (''x'', JNum 2)])
   \<and> objectHash (JObj [(''id'', JNum 0), (''x'', JNum 1)]) = Inr (JStr ''{\"id\":0,\"x\":1}'')
   \<and> matchItems (JObj [(''id'', JNum 0), (''x'', JNum 1)]) (JObj [(''id'', JNum 0), (''x'', JNum 2)])
       = Inr False"
proof -
  let ?o = "JObj [(''id'', JNum 7)]"
  let ?a = "JObj [(''id'', JNum 0), (''x'', JNum 1)]"
  let ?b = "JObj [(''id'', JNum 0), (''x'', JNum 2)]"
  note t1 = objectHash_falls_back_to_serialisation [of ?o "JNum 7" ?a ?b]
  note t2 = objectHash_falls_back_to_serialisation [of ?a "JNum 0" ?a ?b]
  have 1: "propId ?o = Inr (Some (JNum 7)) \<and> truthy (JNum 7)"
    by simp
  have 2: "noTruthyId ?a \<and> noTruthyId ?b \<and> finiteNumbers ?a \<and> finiteNumbers ?b"
    by simp
  have 3: "?a \<noteq> ?b"
    by simp
  from t1 1 have c1: "objectHash ?o = Inr (JNum 7)"
    by blast
  from t2 2 have "objectHash ?a = Inr (JStr (stringify ?a))"
    by blast
  then have c3: "objectHash ?a = Inr (JStr ''{\"id\":0,\"x\":1}'')"
    by (simp only: stringify_sample)
  from t1 2 have "matchItems ?a ?b = Inr (?a = ?b)"
    by blast
  with 3 have c5: "matchItems ?a ?b = Inr False"
    by simp
  from 1 2 c1 c3 c5 show ?thesis
    by blast
qed

text \<open>An infinity is serialised as \<open>null\<close>: the item \<open>{"x": 1e999}\<close> and the item
  \<open>{"x": null}\<close> have the same hash and are matched, and the diff is a change inside the
  item.\<close>

theorem matchItems_infinity_and_null:
  "noTruthyId (JObj [(''x'', JInfinity False)]) \<and> noTruthyId (JObj [(''x'', JNull)])
   \<and> JObj [(''x'', JInfinity False)] \<noteq> JObj [(''x'', JNull)]
   \<and> objectHash (JObj [(''x'', JInfinity False)]) = Inr (JStr ''{\"x\":null}'')
   \<and> objectHash (JObj [(''x'', JNull)]) = Inr (JStr ''{\"x\":null}'')
   \<and> matchItems (JObj [(''x'', JInfinity False)]) (JObj [(''x'', JNull)]) = Inr True
   \<and> JSON_parse sampleRuntime ''[{\"x\":1e999}]'' = Some (JArr [JObj [(''x'', JInfinity False)]])
   \<and> JSON_parse sampleRuntime ''[{\"x\":null}]'' = Some (JArr [JObj [(''x'', JNull)]])
   \<and> contentDiff sampleRuntime ''[{\"x\":1e999}]'' ''[{\"x\":null}]''
       = Inr (Some (ArrayDelta [(At 0, ObjectDelta [(''x'', Replaced (JInfinity False) JNull)])]))"
proof -
  have h: "objectHash (JObj [(''x'', JInfinity False)]) = Inr (JStr ''{\"x\":null}'')"
    "objectHash (JObj [(''x'', JNull)]) = Inr (JStr ''{\"x\":null}'')"
    by code_simp+
  have m: "matchItems (JObj [(''x'', JInfinity False)]) (JObj [(''x'', JNull)]) = Inr True"
    by (simp add: matchItems_def h strictEq_def)
  have p: "parseBoth sampleRuntime ''[{\"x\":1e999}]'' ''[{\"x\":null}]''
        = (JArr [JObj [(''x'', JInfinity False)]], JArr [JObj [(''x'', JNull)]])"
    by (simp add: parseBoth_def sampleRuntime_fields sampleParse_def)
  have d: "contentDiff sampleRuntime ''[{\"x\":1e999}]'' ''[{\"x\":null}]''
       = Inr (Some (ArrayDelta [(At 0, ObjectDelta [(''x'', Replaced (JInfinity False) JNull)])]))"
    by (simp only: contentDiff_def p prod.case diffPatcher_diff_infinity_sample)
  show ?thesis
    using h m d by (simp add: sampleRuntime_fields sampleParse_def)
qed

end
